theory Spec2Isabelle
  imports Complex_Main "HOL-Library.Signed_Division" "HOL-Library.Word"
begin

section \<open>Product quantization (quantize.cpp): data model\<close>

text \<open>
  The development embeds \<^verbatim>\<open>ProductQuantizationLUTs\<close>, \<^verbatim>\<open>ProductQuantizationDistance\<close>
  and \<^verbatim>\<open>ProductQuantizationTransform\<close>.  C++ \<^verbatim>\<open>float\<close> and \<^verbatim>\<open>double\<close> values are
  idealised as \<^typ>\<open>real\<close>: rounding, infinities and NaN are not represented, and a
  floating-point division never traps.  Bytes (\<^verbatim>\<open>uchar\<close>) are \<^typ>\<open>8 word\<close>.

  Every way in which the C++ can stop instead of returning is a value of \<open>error\<close>.
\<close>

datatype error =
    Fatal string
  | CvException
  | IndexOutOfRange
  | InvalidAccess
  | DivisionByZero
  | External string
  | StreamError

text \<open>
  \<^item> \<open>Fatal msg\<close>: \<^verbatim>\<open>qFatal(msg)\<close>, the only reported failure quantize.cpp raises itself;
  \<^item> \<open>CvException\<close>: a \<^verbatim>\<open>CV_Assert\<close> inside an OpenCV call (\<^verbatim>\<open>Mat::row\<close>,
    \<^verbatim>\<open>Mat::colRange\<close>, the \<^verbatim>\<open>Mat\<close> constructor, \<^verbatim>\<open>norm\<close>);
  \<^item> \<open>IndexOutOfRange\<close>: \<^verbatim>\<open>operator[]\<close> of a \<^verbatim>\<open>QList\<close> or \<^verbatim>\<open>QVector\<close> outside its size
    (an assertion in debug builds of Qt, unchecked otherwise);
  \<^item> \<open>InvalidAccess\<close>: a raw pointer access or an unchecked \<^verbatim>\<open>at<float>\<close> outside the
    matrix buffer, or an \<^verbatim>\<open>int\<close> index beyond \<^verbatim>\<open>INT_MAX\<close> (undefined behaviour);
  \<^item> \<open>DivisionByZero\<close>: integer \<^verbatim>\<open>/\<close> or \<^verbatim>\<open>%\<close> by zero;
  \<^item> \<open>External msg\<close>: a failure inside a callee whose body is not part of quantize.cpp;
  \<^item> \<open>StreamError\<close>: a \<^verbatim>\<open>QDataStream\<close> that does not hold the value asked of it.
\<close>

definition bindR :: "error + 'a \<Rightarrow> ('a \<Rightarrow> error + 'b) \<Rightarrow> error + 'b" where
  "bindR m f = (case m of Inl e \<Rightarrow> Inl e | Inr x \<Rightarrow> f x)"

text \<open>\<^verbatim>\<open>for (int i = lo; i < hi; i++) body\<close>, over the list of the values \<open>i\<close> takes;
  the loop stops at the first failure of its body.\<close>

fun forM :: "nat list \<Rightarrow> (nat \<Rightarrow> 's \<Rightarrow> error + 's) \<Rightarrow> 's \<Rightarrow> error + 's" where
  "forM [] body s = Inr s"
| "forM (i # is) body s = (case body i s of Inl e \<Rightarrow> Inl e | Inr s' \<Rightarrow> forM is body s')"

subsection \<open>cv::Mat\<close>

text \<open>A \<^verbatim>\<open>cv::Mat\<close> of one channel: its header and its buffer in row-major order.\<close>

record 'a mat =
  rows :: nat
  cols :: nat
  elems :: "'a list"

definition wf_mat :: "'a mat \<Rightarrow> bool" where
  "wf_mat m = (length (elems m) = rows m * cols m)"

text \<open>\<^verbatim>\<open>Mat()\<close>: no rows, no columns, a null data pointer.\<close>

definition Mat_empty :: "'a mat" where
  "Mat_empty = \<lparr>rows = 0, cols = 0, elems = []\<rparr>"

text \<open>\<^verbatim>\<open>Mat(rows, cols, type)\<close> allocates without initialising: the buffer holds whatever
  the allocator left there, here the values \<open>garbage 0, garbage 1, ...\<close>.\<close>

definition Mat_new :: "nat \<Rightarrow> nat \<Rightarrow> (nat \<Rightarrow> 'a) \<Rightarrow> 'a mat" where
  "Mat_new r c garbage = \<lparr>rows = r, cols = c, elems = map garbage [0..<r * c]\<rparr>"

text \<open>\<^verbatim>\<open>Mat::total()\<close>.\<close>

definition total :: "'a mat \<Rightarrow> nat" where
  "total m = rows m * cols m"

text \<open>\<^verbatim>\<open>Mat::row(y)\<close>; OpenCV asserts the range.\<close>

definition row :: "'a mat \<Rightarrow> nat \<Rightarrow> error + 'a mat" where
  "row m y =
     (if y < rows m
      then Inr \<lparr>rows = 1, cols = cols m, elems = take (cols m) (drop (y * cols m) (elems m))\<rparr>
      else Inl CvException)"

text \<open>\<^verbatim>\<open>Mat::colRange(a, b)\<close>; OpenCV asserts \<open>0 \<le> a \<le> b \<le> cols\<close>.\<close>

definition colRange :: "'a mat \<Rightarrow> int \<Rightarrow> int \<Rightarrow> error + 'a mat" where
  "colRange m a b =
     (if 0 \<le> a \<and> a \<le> b \<and> b \<le> int (cols m)
      then Inr \<lparr>rows = rows m, cols = nat (b - a),
                elems = concat (map (\<lambda>r. take (nat (b - a)) (drop (r * cols m + nat a) (elems m)))
                                    [0..<rows m])\<rparr>
      else Inl CvException)"

text \<open>A read through the data pointer, \<^verbatim>\<open>p[i]\<close> with \<open>i\<close> computed in \<^verbatim>\<open>int\<close>.\<close>

definition INT_MAX :: nat where
  "INT_MAX = 2147483647"

definition peek :: "'a list \<Rightarrow> nat \<Rightarrow> error + 'a" where
  "peek buf i = (if i < length buf \<and> i \<le> INT_MAX then Inr (buf ! i) else Inl InvalidAccess)"

text \<open>A write through \<^verbatim>\<open>at<T>(0, c)\<close> of a one-row header, \<open>c\<close> a loop counter.\<close>

definition poke :: "'a list \<Rightarrow> nat \<Rightarrow> 'a \<Rightarrow> error + 'a list" where
  "poke buf i v = (if i < length buf then Inr (buf[i := v]) else Inl InvalidAccess)"

text \<open>\<^verbatim>\<open>operator[]\<close> of \<^verbatim>\<open>QList\<close> and \<^verbatim>\<open>QVector\<close>.\<close>

definition qat :: "'a list \<Rightarrow> nat \<Rightarrow> error + 'a" where
  "qat xs i = (if i < length xs then Inr (xs ! i) else Inl IndexOutOfRange)"

subsection \<open>The registry and the distance\<close>

text \<open>\<^verbatim>\<open>QVector<Mat> ProductQuantizationLUTs\<close>: one slot per constructed transform.  A
  trained slot is a matrix of \<open>D/n\<close> rows and \<open>256*256\<close> columns.\<close>

type_synonym registry = "real mat list"

text \<open>A \<^verbatim>\<open>Template\<close> is a list of matrices; a quantized code is a matrix of bytes.\<close>

type_synonym code_template = "8 word mat list"

text \<open>Entry \<open>[x][y]\<close> of the table of subspace \<open>j\<close>, as \<^verbatim>\<open>compare\<close> addresses it in the
  buffer of a slot.\<close>

definition table_entry :: "real mat \<Rightarrow> nat \<Rightarrow> nat \<Rightarrow> nat \<Rightarrow> real" where
  "table_entry lut j x y = elems lut ! (j * 256 * 256 + x * 256 + y)"

text \<open>\<^verbatim>\<open>ProductQuantizationDistance::compare\<close>: the inner loop body, the outer loop body,
  and the function.\<close>

definition compare_inner :: "8 word list \<Rightarrow> 8 word list \<Rightarrow> real list \<Rightarrow> nat \<Rightarrow> real \<Rightarrow> error + real" where
  "compare_inner aData bData lut j distance =
     bindR (peek aData j) (\<lambda>aj.
     bindR (peek bData j) (\<lambda>bj.
     bindR (peek lut (j * 256 * 256 + unat aj * 256 + unat bj)) (\<lambda>v.
     Inr (distance + v))))"

definition compare_outer :: "registry \<Rightarrow> code_template \<Rightarrow> code_template \<Rightarrow> nat \<Rightarrow> real \<Rightarrow> error + real" where
  "compare_outer luts a b i distance =
     bindR (qat a i) (\<lambda>ai.
     bindR (qat b i) (\<lambda>bi.
     bindR (qat luts i) (\<lambda>lut.
     forM [0..<total ai] (compare_inner (elems ai) (elems bi) (elems lut)) distance)))"

definition compare :: "bool \<Rightarrow> registry \<Rightarrow> code_template \<Rightarrow> code_template \<Rightarrow> error + real" where
  "compare bayesian luts a b =
     bindR (forM [0..<length a] (compare_outer luts a b) 0) (\<lambda>distance.
     Inr (if \<not> bayesian then - ln (distance + 1) else distance))"



subsection \<open>The transform\<close>

text \<open>\<^verbatim>\<open>ProductQuantizationTransform\<close>: the properties \<^verbatim>\<open>n\<close>, \<^verbatim>\<open>distance\<close> and
  \<^verbatim>\<open>bayesian\<close>, and the members \<^verbatim>\<open>index\<close> and \<^verbatim>\<open>centers\<close>.  The configured
  \<^verbatim>\<open>br::Distance\<close> is a function of two matrices that may fail.\<close>

record transform =
  n :: int
  distance :: "real mat \<Rightarrow> real mat \<Rightarrow> error + real"
  bayesian :: bool
  index :: nat
  centers :: "real mat list"

text \<open>The constructor: the identity is the size of the registry before the append.\<close>

definition construct ::
  "int \<Rightarrow> (real mat \<Rightarrow> real mat \<Rightarrow> error + real) \<Rightarrow> bool \<Rightarrow> registry \<Rightarrow> transform \<times> registry" where
  "construct n0 distance0 bayesian0 luts =
     (\<lparr>n = n0, distance = distance0, bayesian = bayesian0, index = length luts, centers = []\<rparr>,
      luts @ [Mat_empty])"

text \<open>\<^verbatim>\<open>norm(a, b, NORM_L2)\<close> of OpenCV: the Euclidean norm of the difference; the two
  matrices must have the same size.\<close>

definition l2 :: "real list \<Rightarrow> real list \<Rightarrow> real" where
  "l2 xs ys = sqrt (\<Sum>p\<leftarrow>zip xs ys. (fst p - snd p)\<^sup>2)"

definition norm_L2 :: "real mat \<Rightarrow> real mat \<Rightarrow> error + real" where
  "norm_L2 a b =
     (if rows a = rows b \<and> cols a = cols b then Inr (l2 (elems a) (elems b)) else Inl CvException)"

text \<open>\<^verbatim>\<open>std::numeric_limits<double>::max()\<close>.\<close>

definition DBL_MAX :: real where
  "DBL_MAX = (2 ^ 53 - 1) * 2 ^ 971"

text \<open>\<^verbatim>\<open>getIndex\<close>: the loop body on the pair of \<^verbatim>\<open>bestIndex\<close> and \<^verbatim>\<open>bestDistance\<close>, and
  the function.\<close>

definition getIndex_step :: "real mat \<Rightarrow> real mat \<Rightarrow> nat \<Rightarrow> nat \<times> real \<Rightarrow> error + nat \<times> real" where
  "getIndex_step m center j best =
     bindR (row center j) (\<lambda>cj.
     bindR (norm_L2 m cj) (\<lambda>d.
     Inr (if d < snd best then (j, d) else best)))"

definition getIndex :: "real mat \<Rightarrow> real mat \<Rightarrow> error + nat" where
  "getIndex m center =
     bindR (forM [0..<256] (getIndex_step m center) (0, DBL_MAX)) (\<lambda>best. Inr (fst best))"

text \<open>\<^verbatim>\<open>Mat::reshape(1, 1)\<close>: the same buffer read as a single row.\<close>

definition reshape_row :: "'a mat \<Rightarrow> 'a mat" where
  "reshape_row m = \<lparr>rows = 1, cols = total m, elems = elems m\<rparr>"

text \<open>\<^verbatim>\<open>project\<close> (encode).  The code matrix is allocated uninitialised and every byte of
  it is then assigned from \<^verbatim>\<open>getIndex\<close>, converted to \<^verbatim>\<open>uchar\<close>.\<close>

definition project_step :: "transform \<Rightarrow> real mat \<Rightarrow> nat \<Rightarrow> 8 word list \<Rightarrow> error + 8 word list" where
  "project_step t m i dst =
     bindR (colRange m (int i * n t) ((int i + 1) * n t)) (\<lambda>sub.
     bindR (qat (centers t) i) (\<lambda>center.
     bindR (getIndex sub center) (\<lambda>b.
     poke dst i (of_nat b))))"

definition project :: "transform \<Rightarrow> (nat \<Rightarrow> 8 word) \<Rightarrow> real mat \<Rightarrow> error + 8 word mat" where
  "project t garbage src =
     (let m = reshape_row src in
      if n t = 0 then Inl DivisionByZero
      else if int (cols m) sdiv n t < 0 then Inl CvException
      else
        let dst = Mat_new 1 (nat (int (cols m) sdiv n t)) garbage in
        bindR (forM [0..<cols dst] (project_step t m) (elems dst)) (\<lambda>buf.
        Inr (dst\<lparr>elems := buf\<rparr>)))"

text \<open>A transform whose codebooks cover \<open>k\<close> subspaces: a codebook of 256 centers of
  length \<open>n\<close> for each.\<close>

definition has_codebooks :: "transform \<Rightarrow> nat \<Rightarrow> bool" where
  "has_codebooks t k =
     (k \<le> length (centers t) \<and>
      list_all (\<lambda>c. rows c = 256 \<and> int (cols c) = n t) (take k (centers t)))"

text \<open>The sub-vector of subspace \<open>i\<close> and center \<open>j\<close> of a codebook, as lists.\<close>

definition subvector :: "real mat \<Rightarrow> nat \<Rightarrow> nat \<Rightarrow> real list" where
  "subvector v w i = take w (drop (i * w) (elems v))"

definition center_of :: "real mat \<Rightarrow> nat \<Rightarrow> real list" where
  "center_of c j = take (cols c) (drop (j * cols c) (elems c))"

subsection \<open>Training\<close>

text \<open>What training calls and quantize.cpp does not define: \<^verbatim>\<open>cv::kmeans\<close> (with its
  termination criteria, its three attempts, its seeding and its random choices), taking
  the samples and the number of clusters and giving the cluster label of every sample and
  the matrix of centers; \<^verbatim>\<open>Common::Downsample\<close>, \<^verbatim>\<open>Common::KernelDensityBandwidth\<close> and
  \<^verbatim>\<open>Common::KernelDensityEstimation\<close>; and the contents of freshly allocated memory.
  Each callee may fail instead of returning.\<close>

record env =
  kmeans :: "real mat \<Rightarrow> nat \<Rightarrow> error + (int list \<times> real mat)"
  Downsample :: "real list \<Rightarrow> nat \<Rightarrow> error + real list"
  KernelDensityBandwidth :: "real list \<Rightarrow> error + real"
  KernelDensityEstimation :: "real list \<Rightarrow> real \<Rightarrow> real \<Rightarrow> error + real"
  uninitialised :: "nat \<Rightarrow> real"

text \<open>\<^verbatim>\<open>_train\<close> receives \<^verbatim>\<open>lut\<close>, a one-row header that shares the buffer of the registry
  slot: here the buffer \<open>buf\<close> and the offset \<open>off\<close> of the row in it, so that
  \<^verbatim>\<open>lut->at<float>(0, c)\<close> is the cell \<open>off + c\<close> of the buffer, for \<open>0 \<le> c < 256*256\<close>.\<close>

definition lut_read :: "real list \<Rightarrow> nat \<Rightarrow> int \<Rightarrow> error + real" where
  "lut_read buf off c =
     (if 0 \<le> c \<and> c < 256 * 256 \<and> off + nat c < length buf then Inr (buf ! (off + nat c))
      else Inl InvalidAccess)"

definition lut_write :: "real list \<Rightarrow> nat \<Rightarrow> int \<Rightarrow> real \<Rightarrow> error + real list" where
  "lut_write buf off c v =
     (if 0 \<le> c \<and> c < 256 * 256 \<and> off + nat c < length buf then Inr (buf[off + nat c := v])
      else Inl InvalidAccess)"

text \<open>The first pair of loops of \<^verbatim>\<open>_train\<close>: the table of the distances between centers.\<close>

definition fill_cell :: "transform \<Rightarrow> real mat \<Rightarrow> nat \<Rightarrow> nat \<Rightarrow> nat \<Rightarrow> real list \<Rightarrow> error + real list" where
  "fill_cell t center off j k buf =
     bindR (row center j) (\<lambda>cj.
     bindR (row center k) (\<lambda>ck.
     bindR (distance t cj ck) (\<lambda>d.
     lut_write buf off (int j * 256 + int k) d)))"

definition fill_table :: "transform \<Rightarrow> real mat \<Rightarrow> nat \<Rightarrow> real list \<Rightarrow> error + real list" where
  "fill_table t center off buf =
     forM [0..<256] (\<lambda>j. forM [0..<256] (fill_cell t center off j)) buf"

text \<open>The loops over the pairs of samples: the score of a pair, appended to
  \<^verbatim>\<open>genuineScores\<close> or to \<^verbatim>\<open>impostorScores\<close>.\<close>

definition score_pair ::
  "real list \<Rightarrow> nat \<Rightarrow> int list \<Rightarrow> int list \<Rightarrow> nat \<Rightarrow> nat \<Rightarrow> real list \<times> real list
     \<Rightarrow> error + real list \<times> real list" where
  "score_pair buf off indicies labels i j scores =
     bindR (qat indicies i) (\<lambda>ci.
     bindR (qat indicies j) (\<lambda>cj.
     bindR (lut_read buf off (ci * 256 + cj)) (\<lambda>score.
     bindR (qat labels i) (\<lambda>li.
     bindR (qat labels j) (\<lambda>lj.
     Inr (if li = lj then (fst scores @ [score], snd scores)
          else (fst scores, snd scores @ [score])))))))"

definition collect_scores ::
  "real list \<Rightarrow> nat \<Rightarrow> int list \<Rightarrow> int list \<Rightarrow> error + real list \<times> real list" where
  "collect_scores buf off indicies labels =
     forM [0..<length indicies]
       (\<lambda>i. forM [i + 1..<length indicies] (score_pair buf off indicies labels i)) ([], [])"

text \<open>The last pair of loops: every cell becomes the logarithm of the quotient of the two
  density estimates at its own value.\<close>

definition calibrate_cell ::
  "env \<Rightarrow> real list \<Rightarrow> real \<Rightarrow> real list \<Rightarrow> real \<Rightarrow> nat \<Rightarrow> nat \<Rightarrow> nat \<Rightarrow> real list
     \<Rightarrow> error + real list" where
  "calibrate_cell e genuineScores hGenuine impostorScores hImpostor off j k buf =
     bindR (lut_read buf off (int j * 256 + int k)) (\<lambda>x.
     bindR (KernelDensityEstimation e genuineScores x hGenuine) (\<lambda>g.
     bindR (lut_read buf off (int j * 256 + int k)) (\<lambda>y.
     bindR (KernelDensityEstimation e impostorScores y hImpostor) (\<lambda>i.
     lut_write buf off (int j * 256 + int k) (ln (g / i))))))"

definition calibrate_table ::
  "env \<Rightarrow> real list \<Rightarrow> real \<Rightarrow> real list \<Rightarrow> real \<Rightarrow> nat \<Rightarrow> real list \<Rightarrow> error + real list" where
  "calibrate_table e genuineScores hGenuine impostorScores hImpostor off buf =
     forM [0..<256] (\<lambda>j. forM [0..<256]
       (calibrate_cell e genuineScores hGenuine impostorScores hImpostor off j)) buf"

text \<open>\<^verbatim>\<open>_train\<close>: the new buffer and the centers.\<close>

definition train_subspace ::
  "env \<Rightarrow> transform \<Rightarrow> real mat \<Rightarrow> int list \<Rightarrow> real list \<Rightarrow> nat \<Rightarrow> error + real list \<times> real mat" where
  "train_subspace e t data labels buf off =
     bindR (kmeans e data 256) (\<lambda>clustering.
     bindR (fill_table t (snd clustering) off buf) (\<lambda>buf1.
     if \<not> bayesian t then Inr (buf1, snd clustering)
     else
       bindR (collect_scores buf1 off (fst clustering) labels) (\<lambda>scores.
       bindR (Downsample e (fst scores) 256) (\<lambda>genuineScores.
       bindR (Downsample e (snd scores) 256) (\<lambda>impostorScores.
       bindR (KernelDensityBandwidth e genuineScores) (\<lambda>hGenuine.
       bindR (KernelDensityBandwidth e impostorScores) (\<lambda>hImpostor.
       bindR (calibrate_table e genuineScores hGenuine impostorScores hImpostor off buf1) (\<lambda>buf2.
       Inr (buf2, snd clustering)))))))))"

text \<open>\<^verbatim>\<open>train\<close>.  The first loop appends an empty matrix to \<^verbatim>\<open>centers\<close> and collects the
  column ranges of the data; the second runs \<^verbatim>\<open>_train\<close> for every subspace, here one
  after the other (the order in which the concurrent tasks run does not show: each
  writes its own row of the slot and its own element of \<^verbatim>\<open>centers\<close>).  The data matrix is
  \<^verbatim>\<open>OpenCVUtils::toMat(src.data())\<close> and the labels are \<^verbatim>\<open>src.labels<int>()\<close>.\<close>

definition train_prepare ::
  "transform \<Rightarrow> real mat \<Rightarrow> nat \<Rightarrow> real mat list \<times> real mat list
     \<Rightarrow> error + real mat list \<times> real mat list" where
  "train_prepare t data i s =
     bindR (colRange data (int i * n t) ((int i + 1) * n t)) (\<lambda>sub.
     Inr (fst s @ [Mat_empty], snd s @ [sub]))"

definition train_run ::
  "env \<Rightarrow> transform \<Rightarrow> int list \<Rightarrow> real mat list \<Rightarrow> nat \<Rightarrow> real mat list \<times> real list
     \<Rightarrow> error + real mat list \<times> real list" where
  "train_run e t labels subdata i s =
     bindR (qat subdata i) (\<lambda>sub.
     bindR (qat (fst s) i) (\<lambda>_.
     bindR (train_subspace e t sub labels (snd s) (i * (256 * 256))) (\<lambda>r.
     Inr ((fst s)[i := snd r], fst r))))"

definition train ::
  "env \<Rightarrow> transform \<Rightarrow> registry \<Rightarrow> real mat \<Rightarrow> int list \<Rightarrow> error + transform \<times> registry" where
  "train e t luts data labels =
     (if n t = 0 then Inl DivisionByZero
      else if int (cols data) smod n t \<noteq> 0
        then Inl (Fatal ''Expected dimensionality to be divisible by n.'')
      else if \<not> index t < length luts then Inl IndexOutOfRange
      else if int (cols data) sdiv n t < 0 then Inl CvException
      else
        let lut = Mat_new (nat (int (cols data) sdiv n t)) (256 * 256) (uninitialised e) in
        bindR (forM [0..<rows lut] (train_prepare t data) (centers t, [])) (\<lambda>prepared.
        bindR (forM [0..<rows lut] (train_run e t labels (snd prepared)) (fst prepared, elems lut))
          (\<lambda>trained.
        Inr (t\<lparr>centers := fst trained\<rparr>, luts[index t := lut\<lparr>elems := snd trained\<rparr>]))))"

subsection \<open>Persistence\<close>

text \<open>The \<^verbatim>\<open>QDataStream\<close> operators \<^verbatim>\<open><<\<close> and \<^verbatim>\<open>>>\<close> for \<^verbatim>\<open>QList<Mat>\<close> and \<^verbatim>\<open>Mat\<close> are
  not defined in quantize.cpp: a stream is a list of symbols of some type, a write appends
  the encoding of a value, a read takes a value off the front or fails.\<close>

record 'b codec =
  put_mats :: "real mat list \<Rightarrow> 'b list"
  get_mats :: "'b list \<Rightarrow> error + (real mat list \<times> 'b list)"
  put_mat :: "real mat \<Rightarrow> 'b list"
  get_mat :: "'b list \<Rightarrow> error + (real mat \<times> 'b list)"

text \<open>Reading gives back what was written, and leaves what follows it.\<close>

definition lossless :: "'b codec \<Rightarrow> bool" where
  "lossless c =
     ((\<forall>ms rest. get_mats c (put_mats c ms @ rest) = Inr (ms, rest)) \<and>
      (\<forall>m rest. get_mat c (put_mat c m @ rest) = Inr (m, rest)))"

text \<open>\<^verbatim>\<open>store\<close>: \<^verbatim>\<open>stream << centers << ProductQuantizationLUTs[index]\<close>.\<close>

definition store :: "'b codec \<Rightarrow> transform \<Rightarrow> registry \<Rightarrow> 'b list \<Rightarrow> error + 'b list" where
  "store c t luts stream =
     bindR (qat luts (index t)) (\<lambda>lut.
     Inr (stream @ put_mats c (centers t) @ put_mat c lut))"

text \<open>\<^verbatim>\<open>load\<close>: \<^verbatim>\<open>stream >> centers >> ProductQuantizationLUTs[index]\<close>.\<close>

definition load ::
  "'b codec \<Rightarrow> transform \<Rightarrow> registry \<Rightarrow> 'b list \<Rightarrow> error + transform \<times> registry \<times> 'b list" where
  "load c t luts stream =
     bindR (get_mats c stream) (\<lambda>r1.
     bindR (qat luts (index t)) (\<lambda>_.
     bindR (get_mat c (snd r1)) (\<lambda>r2.
     Inr (t\<lparr>centers := fst r1\<rparr>, luts[index t := fst r2], snd r2))))"

text \<open>Transforms constructed one after the other, each with its configuration.\<close>

fun construct_all ::
  "(int \<times> (real mat \<Rightarrow> real mat \<Rightarrow> error + real) \<times> bool) list \<Rightarrow> registry
     \<Rightarrow> transform list \<times> registry" where
  "construct_all [] luts = ([], luts)"
| "construct_all (cfg # cfgs) luts =
     (let made = construct (fst cfg) (fst (snd cfg)) (snd (snd cfg)) luts;
          others = construct_all cfgs (snd made)
      in (fst made # fst others, snd others))"

section \<open>Notions used in the statements and proofs\<close>

text \<open>The invariant of the scan of \<^verbatim>\<open>getIndex\<close>, and a byte of a code being what
  \<^verbatim>\<open>getIndex\<close> returns for its subspace.\<close>

definition scan_inv :: "(nat \<Rightarrow> real) \<Rightarrow> nat \<Rightarrow> nat \<times> real \<Rightarrow> bool" where
  "scan_inv d k best =
     ((fst best = 0 \<and> snd best = DBL_MAX \<and> (\<forall>j<k. \<not> d j < DBL_MAX)) \<or>
      (fst best < k \<and> snd best = d (fst best) \<and> snd best < DBL_MAX \<and>
       (\<forall>j<k. snd best \<le> d j) \<and> (\<forall>j<fst best. snd best < d j)))"

definition byte_ok :: "transform \<Rightarrow> real mat \<Rightarrow> nat \<Rightarrow> 8 word \<Rightarrow> bool" where
  "byte_ok t v i x =
     (\<exists>b. getIndex \<lparr>rows = 1, cols = nat (n t), elems = subvector v (nat (n t)) i\<rparr> (centers t ! i) = Inr b
          \<and> x = of_nat b)"

subsection \<open>Training\<close>

text \<open>The invariant of a loop that assigns the cells \<open>off, off + 1, ...\<close> of a buffer in
  turn; the distance between two centers of a codebook; a calibrated cell; the scores
  of the pairs of samples, by population; the table of raw distances and the calibrated
  table of a subspace; the outcome of \<^verbatim>\<open>_train\<close> for a subspace; the invariant of the
  loop over the subspaces; the number of subspaces; and callees that return on the column
  ranges of a training matrix.\<close>

definition cells_inv :: "(nat \<Rightarrow> 'a \<Rightarrow> 'a \<Rightarrow> bool) \<Rightarrow> nat \<Rightarrow> 'a list \<Rightarrow> nat \<Rightarrow> 'a list \<Rightarrow> bool" where
  "cells_inv R off buf k b =
     (length b = length buf \<and> (0 < k \<longrightarrow> off + k \<le> length buf) \<and>
      (\<forall>i<k. R i (buf ! (off + i)) (b ! (off + i))) \<and>
      (\<forall>p. p < off \<or> off + k \<le> p \<longrightarrow> b ! p = buf ! p))"

definition center_distance :: "transform \<Rightarrow> real mat \<Rightarrow> nat \<Rightarrow> nat \<Rightarrow> real \<Rightarrow> bool" where
  "center_distance t center j k v =
     (bindR (row center j) (\<lambda>cj. bindR (row center k) (\<lambda>ck. distance t cj ck)) = Inr v)"

definition calibrated :: "env \<Rightarrow> real list \<Rightarrow> real \<Rightarrow> real list \<Rightarrow> real \<Rightarrow> real \<Rightarrow> real \<Rightarrow> bool" where
  "calibrated e genuineScores hGenuine impostorScores hImpostor x v =
     (\<exists>g i. KernelDensityEstimation e genuineScores x hGenuine = Inr g \<and>
            KernelDensityEstimation e impostorScores x hImpostor = Inr i \<and>
            v = ln (g / i))"

definition pair_score :: "(nat \<Rightarrow> real) \<Rightarrow> int list \<Rightarrow> nat \<Rightarrow> nat \<Rightarrow> real" where
  "pair_score raw indicies i j = raw (nat (indicies ! i * 256 + indicies ! j))"

definition genuine_population :: "(nat \<Rightarrow> real) \<Rightarrow> int list \<Rightarrow> int list \<Rightarrow> real list" where
  "genuine_population raw indicies labels =
     concat (map (\<lambda>i. map (pair_score raw indicies i)
                         (filter (\<lambda>j. labels ! i = labels ! j) [i + 1..<length indicies]))
                 [0..<length indicies])"

definition impostor_population :: "(nat \<Rightarrow> real) \<Rightarrow> int list \<Rightarrow> int list \<Rightarrow> real list" where
  "impostor_population raw indicies labels =
     concat (map (\<lambda>i. map (pair_score raw indicies i)
                         (filter (\<lambda>j. labels ! i \<noteq> labels ! j) [i + 1..<length indicies]))
                 [0..<length indicies])"

definition raw_table :: "transform \<Rightarrow> real mat \<Rightarrow> (nat \<Rightarrow> real) \<Rightarrow> bool" where
  "raw_table t center raw = (\<forall>j<256. \<forall>k<256. center_distance t center j k (raw (j * 256 + k)))"

definition calibrated_table ::
  "env \<Rightarrow> transform \<Rightarrow> int list \<Rightarrow> int list \<Rightarrow> real mat \<Rightarrow> (nat \<Rightarrow> real) \<Rightarrow> bool" where
  "calibrated_table e t labels indicies center final =
     (\<exists>raw genuineScores impostorScores hGenuine hImpostor.
        raw_table t center raw \<and>
        Downsample e (genuine_population raw indicies labels) 256 = Inr genuineScores \<and>
        Downsample e (impostor_population raw indicies labels) 256 = Inr impostorScores \<and>
        KernelDensityBandwidth e genuineScores = Inr hGenuine \<and>
        KernelDensityBandwidth e impostorScores = Inr hImpostor \<and>
        (\<forall>j<256. \<forall>k<256.
           calibrated e genuineScores hGenuine impostorScores hImpostor
             (raw (j * 256 + k)) (final (j * 256 + k))))"

definition subspace_result ::
  "env \<Rightarrow> transform \<Rightarrow> real mat \<Rightarrow> int list \<Rightarrow> real mat \<Rightarrow> (nat \<Rightarrow> real) \<Rightarrow> bool" where
  "subspace_result e t sub labels center final =
     (\<exists>indicies. kmeans e sub 256 = Inr (indicies, center) \<and>
        (if bayesian t then calibrated_table e t labels indicies center final
         else raw_table t center final))"

definition run_inv ::
  "env \<Rightarrow> transform \<Rightarrow> int list \<Rightarrow> real mat list \<Rightarrow> real mat list \<Rightarrow> nat \<Rightarrow> nat
     \<Rightarrow> real mat list \<times> real list \<Rightarrow> bool" where
  "run_inv e t labels subdata cs0 len k s =
     (length (snd s) = len \<and> length (fst s) = length cs0 \<and>
      (\<forall>i<k. subspace_result e t (subdata ! i) labels (fst s ! i)
                (\<lambda>c. snd s ! (i * 65536 + c))) \<and>
      (\<forall>i\<ge>k. fst s ! i = cs0 ! i))"

definition subspaces :: "transform \<Rightarrow> real mat \<Rightarrow> nat" where
  "subspaces t data = nat (int (cols data) sdiv n t)"

definition returning :: "env \<Rightarrow> transform \<Rightarrow> real mat \<Rightarrow> int list \<Rightarrow> bool" where
  "returning e t data labels =
     ((\<forall>sub. rows sub = rows data \<longrightarrow>
         (\<exists>indicies center. kmeans e sub 256 = Inr (indicies, center) \<and> 256 \<le> rows center \<and>
            length indicies \<le> length labels \<and> list_all (\<lambda>c. 0 \<le> c \<and> c < 256) indicies)) \<and>
      (\<forall>a b. \<exists>d. distance t a b = Inr d) \<and>
      (\<forall>xs k. \<exists>ys. Downsample e xs k = Inr ys) \<and>
      (\<forall>xs. \<exists>h. KernelDensityBandwidth e xs = Inr h) \<and>
      (\<forall>xs x h. \<exists>y. KernelDensityEstimation e xs x h = Inr y))"

section \<open>Example data\<close>

text \<open>A table of one subspace whose every entry is 2, and one-byte codes.\<close>

definition w_lut :: "real mat" where
  "w_lut = \<lparr>rows = 1, cols = 65536, elems = replicate 65536 2\<rparr>"

definition w_code :: "8 word \<Rightarrow> 8 word mat" where
  "w_code x = \<lparr>rows = 1, cols = 1, elems = [x]\<rparr>"

text \<open>The metric \<^verbatim>\<open>Dist(L1)\<close> as a configured base distance: the sum of the absolute
  differences.\<close>

definition dist_L1 :: "real mat \<Rightarrow> real mat \<Rightarrow> error + real" where
  "dist_L1 a b = Inr (\<Sum>p\<leftarrow>zip (elems a) (elems b). \<bar>fst p - snd p\<bar>)"

text \<open>A codebook of 256 centers in the plane: \<open>(3, 4)\<close>, then \<open>(6, 0), (7, 0), ...\<close>; a
  transform of one subspace of width 2 that holds it, configured with the L1 metric; and
  the vector \<open>(0, 0)\<close>.\<close>

definition ex_center :: "nat \<Rightarrow> real list" where
  "ex_center j = (if j = 0 then [3, 4] else [5 + real j, 0])"

definition ex_elems :: "real list" where
  "ex_elems = concat (map ex_center [0..<256])"

definition ex_codebook :: "real mat" where
  "ex_codebook = \<lparr>rows = 256, cols = 2, elems = ex_elems\<rparr>"

definition pq_L1 :: transform where
  "pq_L1 = \<lparr>n = 2, distance = dist_L1, bayesian = False, index = 0, centers = [ex_codebook]\<rparr>"

definition origin :: "real mat" where
  "origin = \<lparr>rows = 1, cols = 2, elems = [0, 0]\<rparr>"

definition zero_bytes :: "nat \<Rightarrow> 8 word" where
  "zero_bytes i = 0"

text \<open>A vector of one element.\<close>

definition one_value :: "real mat" where
  "one_value = \<lparr>rows = 1, cols = 1, elems = [1]\<rparr>"

text \<open>A training matrix of five columns.\<close>

definition five_columns :: "real mat" where
  "five_columns = \<lparr>rows = 1, cols = 5, elems = [1, 2, 3, 4, 5]\<rparr>"

text \<open>The same 256 points as a training set, with labels of one class and of two.\<close>

definition ex_samples :: "real mat" where
  "ex_samples = ex_codebook"

definition one_class :: "int list" where
  "one_class = replicate 256 7"

definition two_classes :: "int list" where
  "two_classes = map (\<lambda>j. int (j mod 2)) [0..<256]"

text \<open>An environment: a clustering routine that is defined on exactly as many samples as
  clusters are asked for, where it makes every sample the center of its own cluster (and
  fails otherwise, as \<^verbatim>\<open>cv::kmeans\<close> does on fewer samples than clusters); a
  downsampling that keeps the first \<open>k\<close> entries; a constant bandwidth; the Gaussian
  kernel density estimate; and zeros in fresh memory.\<close>

definition ex_kmeans :: "real mat \<Rightarrow> nat \<Rightarrow> error + (int list \<times> real mat)" where
  "ex_kmeans data k =
     (if rows data = k then Inr (map int [0..<k], data) else Inl CvException)"

definition ex_Downsample :: "real list \<Rightarrow> nat \<Rightarrow> error + real list" where
  "ex_Downsample xs k = Inr (take k xs)"

definition ex_Bandwidth :: "real list \<Rightarrow> error + real" where
  "ex_Bandwidth xs = Inr 1"

definition ex_Estimation :: "real list \<Rightarrow> real \<Rightarrow> real \<Rightarrow> error + real" where
  "ex_Estimation xs x h =
     Inr ((\<Sum>v\<leftarrow>xs. exp (- ((v - x) / h)\<^sup>2 / 2) / sqrt (2 * pi)) / (real (length xs) * h))"

definition ex_env :: env where
  "ex_env = \<lparr>kmeans = ex_kmeans, Downsample = ex_Downsample,
             KernelDensityBandwidth = ex_Bandwidth, KernelDensityEstimation = ex_Estimation,
             uninitialised = (\<lambda>i. 0)\<rparr>"

text \<open>A stream of matrices and lists of matrices, with the codec that writes a value as
  one symbol.\<close>

datatype item = MatItem "real mat" | MatsItem "real mat list"

fun item_get_mats :: "item list \<Rightarrow> error + (real mat list \<times> item list)" where
  "item_get_mats (MatsItem ms # rest) = Inr (ms, rest)"
| "item_get_mats _ = Inl StreamError"

fun item_get_mat :: "item list \<Rightarrow> error + (real mat \<times> item list)" where
  "item_get_mat (MatItem m # rest) = Inr (m, rest)"
| "item_get_mat _ = Inl StreamError"

definition item_codec :: "item codec" where
  "item_codec = \<lparr>put_mats = (\<lambda>ms. [MatsItem ms]), get_mats = item_get_mats,
                 put_mat = (\<lambda>m. [MatItem m]), get_mat = item_get_mat\<rparr>"

text \<open>Untrained transforms of width 2, without and with calibration.\<close>

definition pq_plain :: transform where
  "pq_plain = \<lparr>n = 2, distance = dist_L1, bayesian = False, index = 0, centers = []\<rparr>"

definition pq_bayes :: transform where
  "pq_bayes = \<lparr>n = 2, distance = dist_L1, bayesian = True, index = 0, centers = []\<rparr>"


section \<open>Loops\<close>

lemma bindR_Inr_iff: "bindR m f = Inr y \<longleftrightarrow> (\<exists>x. m = Inr x \<and> f x = Inr y)"
  by (cases m) (simp_all add: bindR_def)

lemma bindR_Inr: "bindR (Inr x) f = f x"
  by (simp add: bindR_def)

lemma bindR_Inl: "bindR (Inl e) f = Inl e"
  by (simp add: bindR_def)

lemma forM_append:
  "forM (xs @ ys) body s = bindR (forM xs body s) (forM ys body)"
  by (induction xs arbitrary: s) (simp_all add: bindR_def split: sum.splits)

lemma forM_single: "forM [x] body s = body x s"
  by (cases "body x s") simp_all

lemma forM_snoc_Inr:
  "forM (xs @ [x]) body s = Inr s' \<longleftrightarrow> (\<exists>t. forM xs body s = Inr t \<and> body x t = Inr s')"
  unfolding forM_append bindR_Inr_iff forM_single ..


section \<open>compare\<close>


lemma qat_Inr_iff: "qat xs i = Inr v \<longleftrightarrow> i < length xs \<and> v = xs ! i"
  by (auto simp: qat_def)





section \<open>encode\<close>

lemma forM_upt_inv:
  assumes "forM [lo..<hi] body s = Inr s'" and "lo \<le> hi" and "P lo s"
    and "\<And>i a b. lo \<le> i \<Longrightarrow> i < hi \<Longrightarrow> P i a \<Longrightarrow> body i a = Inr b \<Longrightarrow> P (Suc i) b"
  shows "P hi s'"
  using assms
proof (induction hi arbitrary: s')
  case 0
  then show ?case by simp
next
  case (Suc hi)
  show ?case
  proof (cases "lo = Suc hi")
    case True
    with Suc.prems(1,3) show ?thesis by simp
  next
    case False
    with Suc.prems(2) have le: "lo \<le> hi" by simp
    then have "[lo..<Suc hi] = [lo..<hi] @ [hi]" by simp
    with Suc.prems(1) obtain u where u: "forM [lo..<hi] body s = Inr u" and b: "body hi u = Inr s'"
      by (auto simp: forM_snoc_Inr)
    have "P hi u"
      by (rule Suc.IH [OF u le Suc.prems(3)]) (use Suc.prems(4) in auto)
    with b le show ?thesis using Suc.prems(4) [of hi u s'] by simp
  qed
qed

lemma forM_upt_total:
  assumes "lo \<le> hi" and "P lo s"
    and "\<And>i a. lo \<le> i \<Longrightarrow> i < hi \<Longrightarrow> P i a \<Longrightarrow> \<exists>b. body i a = Inr b \<and> P (Suc i) b"
  shows "\<exists>s'. forM [lo..<hi] body s = Inr s' \<and> P hi s'"
  using assms
proof (induction hi)
  case 0
  then show ?case by simp
next
  case (Suc hi)
  show ?case
  proof (cases "lo = Suc hi")
    case True
    with Suc.prems(2) show ?thesis by simp
  next
    case False
    with Suc.prems(1) have le: "lo \<le> hi" by simp
    then have eq: "[lo..<Suc hi] = [lo..<hi] @ [hi]" by simp
    have "\<exists>u. forM [lo..<hi] body s = Inr u \<and> P hi u"
      by (rule Suc.IH [OF le Suc.prems(2)]) (use Suc.prems(3) in auto)
    then obtain u where u: "forM [lo..<hi] body s = Inr u" and pu: "P hi u" by blast
    from Suc.prems(3) [OF le _ pu] obtain b where "body hi u = Inr b" "P (Suc hi) b" by auto
    with u show ?thesis unfolding eq forM_snoc_Inr by blast
  qed
qed

lemma poke_Inr_iff: "poke buf i v = Inr buf' \<longleftrightarrow> i < length buf \<and> buf' = buf[i := v]"
  by (auto simp: poke_def)

lemma project_step_length:
  "project_step t m i dst = Inr dst' \<Longrightarrow> length dst' = length dst"
  by (auto simp: project_step_def bindR_Inr_iff poke_Inr_iff)

lemma project_Inr_size:
  assumes "project t garbage v = Inr code"
  shows "rows code = 1 \<and> int (cols code) = int (total v) sdiv n t \<and> length (elems code) = cols code"
proof -
  let ?c = "nat (int (total v) sdiv n t)"
  from assms have nz: "n t \<noteq> 0" and nonneg: "0 \<le> int (total v) sdiv n t"
    by (auto simp: project_def Let_def reshape_row_def split: if_splits)
  from assms nz nonneg obtain buf where
    loop: "forM [0..<?c] (project_step t (reshape_row v)) (map garbage [0..<?c]) = Inr buf"
    and code: "code = \<lparr>rows = 1, cols = ?c, elems = buf\<rparr>"
    by (auto simp: project_def Let_def reshape_row_def Mat_new_def bindR_Inr_iff split: if_splits)
  have "length buf = ?c"
    by (rule forM_upt_inv [OF loop, where P = "\<lambda>_ b. length b = ?c"])
       (auto dest: project_step_length)
  with code nonneg show ?thesis by simp
qed

lemma row_Inr_iff:
  "row m y = Inr r \<longleftrightarrow> y < rows m \<and> r = \<lparr>rows = 1, cols = cols m, elems = center_of m y\<rparr>"
  by (auto simp: row_def center_of_def)

lemma getIndex_step_Inr_iff:
  "getIndex_step m center j best = Inr best' \<longleftrightarrow>
     j < rows center \<and> rows m = 1 \<and> cols m = cols center \<and>
     best' = (if l2 (elems m) (center_of center j) < snd best
              then (j, l2 (elems m) (center_of center j)) else best)"
  by (auto simp: getIndex_step_def bindR_Inr_iff row_Inr_iff norm_L2_def)

lemma getIndex_total:
  assumes "256 \<le> rows center" and "rows m = 1" and "cols m = cols center"
  shows "\<exists>b. getIndex m center = Inr b"
proof -
  have "\<exists>s'. forM [0..<256] (getIndex_step m center) (0, DBL_MAX) = Inr s' \<and> True"
    by (rule forM_upt_total [where P = "\<lambda>_ _. True"])
       (use assms in \<open>auto simp: getIndex_step_Inr_iff\<close>)
  then show ?thesis by (auto simp: getIndex_def bindR_Inr_iff)
qed

lemma scan_inv_step:
  assumes "scan_inv d k best"
  shows "scan_inv d (Suc k) (if d k < snd best then (k, d k) else best)"
proof (cases "d k < snd best")
  case True
  from assms have "snd best \<le> DBL_MAX" and "\<forall>j<k. snd best \<le> d j"
    by (auto simp: scan_inv_def not_less)
  with True show ?thesis
    by (auto simp: scan_inv_def less_Suc_eq)
next
  case False
  with assms show ?thesis
    by (auto simp: scan_inv_def less_Suc_eq not_less)
qed

lemma getIndex_least_argmin:
  assumes "getIndex m center = Inr b"
  shows "b < 256 \<and>
    ((\<exists>j<256. l2 (elems m) (center_of center j) < DBL_MAX) \<longrightarrow>
       (\<forall>j<256. l2 (elems m) (center_of center b) \<le> l2 (elems m) (center_of center j)) \<and>
       (\<forall>j<b. l2 (elems m) (center_of center b) < l2 (elems m) (center_of center j)))"
proof -
  let ?d = "\<lambda>j. l2 (elems m) (center_of center j)"
  from assms obtain best where
    loop: "forM [0..<256] (getIndex_step m center) (0, DBL_MAX) = Inr best" and b: "b = fst best"
    by (auto simp: getIndex_def bindR_Inr_iff)
  have "scan_inv ?d 256 best"
  proof (rule forM_upt_inv [OF loop, where P = "scan_inv ?d"])
    show "scan_inv ?d 0 (0, DBL_MAX)" by (simp add: scan_inv_def)
  next
    fix i a c
    assume "scan_inv ?d i a" "getIndex_step m center i a = Inr c"
    then show "scan_inv ?d (Suc i) c"
      using scan_inv_step [of ?d i a] by (simp add: getIndex_step_Inr_iff)
  qed simp
  with b show ?thesis
    unfolding scan_inv_def by auto
qed

lemma sdiv_nat_pos: "0 < b \<Longrightarrow> int a sdiv b = int (a div nat b)"
  by (cases "a = 0") (simp_all add: signed_divide_int_def zdiv_int)

lemma colRange_reshape_row:
  assumes "0 < w" and "Suc i * w \<le> total v"
  shows "colRange (reshape_row v) (int i * int w) ((int i + 1) * int w) =
         Inr \<lparr>rows = 1, cols = w, elems = subvector v w i\<rparr>"
proof -
  have "(int i + 1) * int w \<le> int (total v)"
    using assms(2) by (metis of_nat_Suc of_nat_le_iff of_nat_mult add.commute)
  moreover have "nat ((int i + 1) * int w - int i * int w) = w"
    by (simp add: algebra_simps)
  moreover have "nat (int i * int w) = i * w"
    by (simp add: nat_mult_distrib)
  moreover have "int i * int w \<le> (int i + 1) * int w"
    by (simp add: algebra_simps)
  ultimately show ?thesis
    by (simp add: colRange_def reshape_row_def subvector_def)
qed

lemma project_step_Inr_iff:
  assumes "0 < n t" and "Suc i * nat (n t) \<le> total v"
  shows "project_step t (reshape_row v) i dst = Inr dst' \<longleftrightarrow>
     i < length (centers t) \<and> i < length dst \<and>
     (\<exists>b. getIndex \<lparr>rows = 1, cols = nat (n t), elems = subvector v (nat (n t)) i\<rparr> (centers t ! i) = Inr b
          \<and> dst' = dst[i := of_nat b])"
proof -
  from assms(1) have n: "n t = int (nat (n t))" and w: "0 < nat (n t)" by simp_all
  have cr: "colRange (reshape_row v) (int i * n t) ((int i + 1) * n t) =
      Inr \<lparr>rows = 1, cols = nat (n t), elems = subvector v (nat (n t)) i\<rparr>"
    using colRange_reshape_row [OF w assms(2)] n by simp
  show ?thesis
    unfolding project_step_def cr bindR_Inr bindR_Inr_iff qat_Inr_iff poke_Inr_iff by auto
qed

lemma div_bound: "i < (a::nat) div w \<Longrightarrow> Suc i * w \<le> a"
proof -
  assume "i < a div w"
  then have "Suc i \<le> a div w" by simp
  then have "Suc i * w \<le> a div w * w" by (rule mult_le_mono1)
  also have "\<dots> \<le> a" by simp
  finally show ?thesis .
qed

lemma project_bytes:
  assumes "project t garbage v = Inr code" and "0 < n t" and "i < length (elems code)"
  shows "byte_ok t v i (elems code ! i)"
proof -
  let ?w = "nat (n t)"
  let ?c = "total v div ?w"
  have c: "nat (int (total v) sdiv n t) = ?c"
    using assms(2) by (simp add: sdiv_nat_pos)
  from assms(1,2) obtain buf where
    loop: "forM [0..<?c] (project_step t (reshape_row v)) (map garbage [0..<?c]) = Inr buf"
    and code: "code = \<lparr>rows = 1, cols = ?c, elems = buf\<rparr>"
    by (auto simp: project_def Let_def c reshape_row_def Mat_new_def bindR_Inr_iff sdiv_nat_pos
        split: if_splits)
  have "length buf = ?c \<and> (\<forall>j<?c. byte_ok t v j (buf ! j))"
  proof (rule forM_upt_inv [OF loop,
        where P = "\<lambda>k b. length b = ?c \<and> (\<forall>j<k. byte_ok t v j (b ! j))"])
    fix k a b
    assume k: "k < ?c" and a: "length a = ?c \<and> (\<forall>j<k. byte_ok t v j (a ! j))"
      and step: "project_step t (reshape_row v) k a = Inr b"
    from step obtain x where x: "byte_ok t v k x" and b: "b = a[k := x]"
      unfolding project_step_Inr_iff [OF assms(2) div_bound [OF k]] byte_ok_def by blast
    show "length b = ?c \<and> (\<forall>j<Suc k. byte_ok t v j (b ! j))"
      using a x k by (auto simp: b less_Suc_eq nth_list_update)
  qed simp_all
  with assms(3) code show ?thesis by simp
qed

lemma project_total:
  assumes "0 < n t" and "has_codebooks t (total v div nat (n t))"
  shows "\<exists>code. project t garbage v = Inr code"
proof -
  let ?w = "nat (n t)"
  let ?c = "total v div ?w"
  have c: "nat (int (total v) sdiv n t) = ?c" and nonneg: "\<not> int (total v) sdiv n t < 0"
    using assms(1) by (simp_all add: sdiv_nat_pos)
  from assms(2) have len: "?c \<le> length (centers t)"
    and books0: "\<And>i. i < ?c \<Longrightarrow> rows (centers t ! i) = 256 \<and> int (cols (centers t ! i)) = n t"
    by (auto simp: has_codebooks_def list_all_length)
  have books: "rows (centers t ! i) = 256 \<and> cols (centers t ! i) = ?w" if "i < ?c" for i
    using books0 [OF that] by (metis nat_int)
  have "\<exists>buf. forM [0..<?c] (project_step t (reshape_row v)) (map garbage [0..<?c]) = Inr buf
          \<and> length buf = ?c"
  proof (rule forM_upt_total [where P = "\<lambda>_ b. length b = ?c"])
    fix k and a :: "8 word list"
    assume k: "k < ?c" and a: "length a = ?c"
    from books [OF k] obtain b where
      "getIndex \<lparr>rows = 1, cols = ?w, elems = subvector v ?w k\<rparr> (centers t ! k) = Inr b"
      using getIndex_total [of "centers t ! k" "\<lparr>rows = 1, cols = ?w, elems = subvector v ?w k\<rparr>"]
      by auto
    then show "\<exists>b. project_step t (reshape_row v) k a = Inr b \<and> length b = ?c"
      using k a len
      unfolding project_step_Inr_iff [OF assms(1) div_bound [OF k]] by simp
  qed simp_all
  then show ?thesis
    using assms(1) nonneg by (auto simp: project_def Let_def c reshape_row_def Mat_new_def bindR_Inr_iff)
qed

lemma take_drop_concat_uniform:
  "\<forall>x\<in>set xss. length x = w \<Longrightarrow> j < length xss \<Longrightarrow>
     take w (drop (j * w) (concat xss)) = xss ! j"
proof (induction xss arbitrary: j)
  case Nil
  then show ?case by simp
next
  case (Cons x xss)
  then show ?case by (cases j) simp_all
qed

lemma center_of_ex: "j < 256 \<Longrightarrow> center_of ex_codebook j = ex_center j"
  using take_drop_concat_uniform [of "map ex_center [0..<256]" 2 j]
  by (simp add: center_of_def ex_codebook_def ex_elems_def ex_center_def del: upt_rec_numeral)

lemma sqrt_25: "sqrt 25 = 5"
  by (rule real_sqrt_unique) simp_all

lemma l2_origin_ex:
  "j < 256 \<Longrightarrow> l2 [0, 0] (center_of ex_codebook j) = (if j = 0 then 5 else 5 + real j)"
  by (simp add: center_of_ex ex_center_def l2_def sqrt_25)

lemma has_codebooks_pq_L1: "has_codebooks pq_L1 1"
  by (simp add: has_codebooks_def pq_L1_def ex_codebook_def)

lemma project_pq_L1_origin:
  "project pq_L1 zero_bytes origin = Inr \<lparr>rows = 1, cols = 1, elems = [0]\<rparr>"
proof -
  have n: "0 < n pq_L1" and tot: "total origin div nat (n pq_L1) = 1"
    by (simp_all add: pq_L1_def origin_def total_def)
  from project_total [of pq_L1 origin zero_bytes] n tot has_codebooks_pq_L1
  obtain code where code: "project pq_L1 zero_bytes origin = Inr code" by auto
  from project_Inr_size [OF code] n tot
  have sz: "rows code = 1" "cols code = 1" "length (elems code) = 1"
    by (simp_all add: sdiv_nat_pos)
  from project_bytes [OF code n, of 0] sz obtain b where
    b: "getIndex \<lparr>rows = 1, cols = 2, elems = [0, 0]\<rparr> ex_codebook = Inr b"
    and x: "elems code ! 0 = of_nat b"
    by (auto simp: byte_ok_def pq_L1_def subvector_def origin_def)
  have "l2 [0, 0] (center_of ex_codebook 0) < DBL_MAX"
    by (simp add: l2_origin_ex DBL_MAX_def)
  with getIndex_least_argmin [OF b]
  have b256: "b < 256"
    and least: "\<forall>j<b. l2 [0, 0] (center_of ex_codebook b) < l2 [0, 0] (center_of ex_codebook j)"
    by auto
  have "b = 0"
  proof (rule ccontr)
    assume "b \<noteq> 0"
    with least have "l2 [0, 0] (center_of ex_codebook b) < l2 [0, 0] (center_of ex_codebook 0)"
      by simp
    with b256 \<open>b \<noteq> 0\<close> show False by (simp add: l2_origin_ex)
  qed
  with x sz(3) have "elems code = [0]"
    by (cases "elems code") simp_all
  with sz code show ?thesis by (cases code) simp
qed

text \<open>
  Claim C3.  Whenever \<^verbatim>\<open>project\<close> (encode) returns, the code is one row of exactly
  \<open>D/n\<close> bytes (\<open>D\<close> the number of elements of the input, \<open>/\<close> the division of C++), each
  byte in \<open>[0,255]\<close>; and it does return for a transform of positive width \<open>n\<close> that holds a
  codebook of 256 centers of length \<open>n\<close> for each of the \<open>D/n\<close> subspaces.
\<close>

theorem project_code_length:
  "(\<forall>code. project t garbage v = Inr code \<longrightarrow>
      rows code = 1 \<and> int (cols code) = int (total v) sdiv n t \<and>
      length (elems code) = cols code \<and> (\<forall>b\<in>set (elems code). unat b \<le> 255)) \<and>
   (0 < n t \<and> has_codebooks t (total v div nat (n t)) \<longrightarrow>
      (\<exists>code. project t garbage v = Inr code \<and> length (elems code) = total v div nat (n t)))"
proof (intro conjI allI impI)
  fix code
  assume "project t garbage v = Inr code"
  from project_Inr_size [OF this]
  show "rows code = 1" and "int (cols code) = int (total v) sdiv n t"
    and "length (elems code) = cols code"
    by simp_all
  show "\<forall>b\<in>set (elems code). unat b \<le> 255"
  proof
    fix b :: "8 word"
    have "unat b < 2 ^ LENGTH(8)" by (rule unsigned_less)
    then show "unat b \<le> 255" by simp
  qed
next
  assume a: "0 < n t \<and> has_codebooks t (total v div nat (n t))"
  then obtain code where code: "project t garbage v = Inr code"
    using project_total [of t v garbage] by blast
  from project_Inr_size [OF code] a have "length (elems code) = total v div nat (n t)"
    by (simp add: sdiv_nat_pos)
  with code show "\<exists>code. project t garbage v = Inr code \<and> length (elems code) = total v div nat (n t)"
    by blast
qed

theorem project_code_length_witness:
  "0 < n pq_L1 \<and> has_codebooks pq_L1 (total origin div nat (n pq_L1)) \<and>
   (\<exists>code. project pq_L1 zero_bytes origin = Inr code \<and> length (elems code) = 1 \<and>
      rows code = 1 \<and> cols code = 1 \<and> unat (elems code ! 0) \<le> 255)"
proof -
  have n: "0 < n pq_L1" and tot: "total origin div nat (n pq_L1) = 1"
    by (simp_all add: pq_L1_def origin_def total_def)
  have hc: "has_codebooks pq_L1 (total origin div nat (n pq_L1))"
    unfolding tot by (rule has_codebooks_pq_L1)
  from project_code_length [of pq_L1 zero_bytes origin] n hc
  obtain code where code: "project pq_L1 zero_bytes origin = Inr code"
    and len: "length (elems code) = 1"
    unfolding tot by blast
  from project_code_length [of pq_L1 zero_bytes origin, THEN conjunct1, rule_format, OF code]
  have r: "rows code = 1" and c: "length (elems code) = cols code"
    and b: "\<forall>b\<in>set (elems code). unat b \<le> 255"
    by simp_all
  from len have "elems code ! 0 \<in> set (elems code)" by simp
  with b have "unat (elems code ! 0) \<le> 255" by blast
  with n hc code len r c show ?thesis by auto
qed

lemma sdiv_pos_divisor:
  assumes "0 < int a sdiv b"
  shows "0 < b"
proof (rule ccontr)
  assume "\<not> 0 < b"
  then have "int a sdiv b \<le> 0"
    by (cases "b = 0"; cases "a = 0")
       (simp_all add: signed_divide_int_def sgn_if div_int_pos_iff)
  with assms show False by simp
qed

text \<open>
  Claim C4 (amended).  For every input vector and every subspace \<open>i\<close> of its code, the byte
  emitted by encode is an index below 256, and, provided some center of the subspace's
  codebook lies at a Euclidean distance below \<open>DBL_MAX\<close> from the sub-vector, it is the least
  index of a center at minimal Euclidean (L2) distance from the sub-vector among the 256
  centers: an exact linear scan, which uses the L2 norm whatever base distance metric is
  configured.
\<close>

theorem project_byte_nearest_L2:
  assumes "project t garbage v = Inr code" and "i < length (elems code)"
  shows "unat (elems code ! i) < 256 \<and>
    ((\<exists>j<256. l2 (subvector v (nat (n t)) i) (center_of (centers t ! i) j) < DBL_MAX) \<longrightarrow>
       (\<forall>j<256. l2 (subvector v (nat (n t)) i) (center_of (centers t ! i) (unat (elems code ! i)))
                \<le> l2 (subvector v (nat (n t)) i) (center_of (centers t ! i) j)) \<and>
       (\<forall>j<unat (elems code ! i).
                l2 (subvector v (nat (n t)) i) (center_of (centers t ! i) (unat (elems code ! i)))
                < l2 (subvector v (nat (n t)) i) (center_of (centers t ! i) j)))"
proof -
  from project_Inr_size [OF assms(1)] assms(2) have "0 < int (total v) sdiv n t"
    by simp
  then have n: "0 < n t" by (rule sdiv_pos_divisor)
  from project_bytes [OF assms(1) n assms(2)] obtain b where
    b: "getIndex \<lparr>rows = 1, cols = nat (n t), elems = subvector v (nat (n t)) i\<rparr> (centers t ! i) = Inr b"
    and x: "elems code ! i = of_nat b"
    unfolding byte_ok_def by blast
  from getIndex_least_argmin [OF b] have b256: "b < 256" by simp
  then have "unat (elems code ! i) = b"
    by (simp add: x unat_of_nat)
  with getIndex_least_argmin [OF b] show ?thesis by simp
qed

theorem project_byte_nearest_L2_witness:
  "project pq_L1 zero_bytes origin = Inr \<lparr>rows = 1, cols = 1, elems = [0]\<rparr> \<and>
   l2 [0, 0] (center_of ex_codebook 0) < DBL_MAX \<and>
   l2 [0, 0] (center_of ex_codebook 0) \<le> l2 [0, 0] (center_of ex_codebook 200)"
proof -
  have p: "project pq_L1 zero_bytes origin = Inr \<lparr>rows = 1, cols = 1, elems = [0]\<rparr>"
    by (rule project_pq_L1_origin)
  have d: "l2 [0, 0] (center_of ex_codebook 0) < DBL_MAX"
    by (simp add: l2_origin_ex DBL_MAX_def)
  from project_byte_nearest_L2 [OF p, of 0] d
  have "l2 [0, 0] (center_of ex_codebook 0) \<le> l2 [0, 0] (center_of ex_codebook 200)"
    by (auto simp: pq_L1_def subvector_def origin_def)
  with p d show ?thesis by simp
qed

text \<open>
  The claim as stated fails when the configured metric is not the Euclidean one.  With the
  L1 metric configured and the vector \<open>(0, 0)\<close>, encode emits byte 0, the center \<open>(3, 4)\<close>
  at L1 distance 7, although center 1, \<open>(6, 0)\<close>, is at L1 distance 6.
\<close>

theorem project_ignores_configured_distance:
  "project pq_L1 zero_bytes origin = Inr \<lparr>rows = 1, cols = 1, elems = [0]\<rparr> \<and>
   bindR (row (centers pq_L1 ! 0) 0) (distance pq_L1 origin) = Inr 7 \<and>
   bindR (row (centers pq_L1 ! 0) 1) (distance pq_L1 origin) = Inr 6"
proof -
  have r: "row ex_codebook j = Inr \<lparr>rows = 1, cols = 2, elems = ex_center j\<rparr>" if "j < 256" for j
    unfolding row_Inr_iff center_of_ex [OF that] using that by (simp add: ex_codebook_def)
  have c: "centers pq_L1 ! 0 = ex_codebook" and d: "distance pq_L1 = dist_L1"
    by (simp_all add: pq_L1_def)
  have r0: "row ex_codebook 0 = Inr \<lparr>rows = 1, cols = 2, elems = [3, 4]\<rparr>"
    using r [of 0] by (simp add: ex_center_def)
  have r1: "row ex_codebook 1 = Inr \<lparr>rows = 1, cols = 2, elems = [6, 0]\<rparr>"
    using r [of 1] by (simp add: ex_center_def)
  have a7: "bindR (row ex_codebook 0) (dist_L1 origin) = Inr 7"
    unfolding r0 bindR_Inr by (simp add: dist_L1_def origin_def)
  have a6: "bindR (row ex_codebook 1) (dist_L1 origin) = Inr 6"
    unfolding r1 bindR_Inr by (simp add: dist_L1_def origin_def)
  from project_pq_L1_origin a7 a6 show ?thesis
    unfolding c d by (intro conjI)
qed

section \<open>train: the divisibility check\<close>

lemma smod_eq_0_iff_dvd: "(k::int) smod l = 0 \<longleftrightarrow> l dvd k"
proof -
  have "k smod l = 0 \<longleftrightarrow> \<bar>k\<bar> mod \<bar>l\<bar> = 0"
    by (cases "k = 0") (simp_all add: signed_modulo_int_def sgn_if)
  also have "\<dots> \<longleftrightarrow> \<bar>l\<bar> dvd \<bar>k\<bar>"
    by (simp only: dvd_eq_mod_eq_0)
  also have "\<dots> \<longleftrightarrow> l dvd k"
    by simp
  finally show ?thesis .
qed

text \<open>
  Claim C7.  When the dimensionality \<open>D\<close> (the number of columns of the training matrix)
  is not divisible by the configured width \<open>n\<close>, \<^verbatim>\<open>train\<close> stops at its first statement with
  \<^verbatim>\<open>qFatal("Expected dimensionality to be divisible by n.")\<close> (for \<open>n = 0\<close>, on the division
  by zero of the check itself), for every registry, every label list and every
  clustering routine: nothing of the environment, and so no clustering, is reached.
\<close>

theorem train_rejects_indivisible:
  "\<not> n t dvd int (cols data) \<Longrightarrow>
     \<forall>e luts labels. train e t luts data labels =
       Inl (if n t = 0 then DivisionByZero
            else Fatal ''Expected dimensionality to be divisible by n.'')"
  by (simp add: train_def smod_eq_0_iff_dvd)

theorem train_rejects_indivisible_witness:
  "\<not> n pq_L1 dvd int (cols five_columns) \<and>
   train ex_env pq_L1 [Mat_empty] five_columns [0] =
     Inl (Fatal ''Expected dimensionality to be divisible by n.'')"
proof -
  have h: "\<not> n pq_L1 dvd int (cols five_columns)"
    by (simp add: pq_L1_def five_columns_def)
  from train_rejects_indivisible [OF h] h show ?thesis
    by (simp add: pq_L1_def)
qed

section \<open>Construction and the registry\<close>

lemma construct_all_registry:
  "snd (construct_all cfgs luts) = luts @ replicate (length cfgs) Mat_empty"
proof (induction cfgs arbitrary: luts)
  case Nil
  then show ?case by simp
next
  case (Cons cfg cfgs)
  have "snd (construct_all (cfg # cfgs) luts) = snd (construct_all cfgs (luts @ [Mat_empty]))"
    by (simp add: Let_def construct_def)
  also have "\<dots> = (luts @ [Mat_empty]) @ replicate (length cfgs) Mat_empty"
    by (rule Cons.IH)
  also have "\<dots> = luts @ replicate (length (cfg # cfgs)) Mat_empty"
    by simp
  finally show ?case .
qed

lemma construct_all_index:
  "map index (fst (construct_all cfgs luts)) = [length luts..<length luts + length cfgs]"
proof (induction cfgs arbitrary: luts)
  case Nil
  then show ?case by simp
next
  case (Cons cfg cfgs)
  have "map index (fst (construct_all (cfg # cfgs) luts)) =
        length luts # map index (fst (construct_all cfgs (luts @ [Mat_empty])))"
    by (simp add: Let_def construct_def)
  also have "\<dots> = length luts # [Suc (length luts)..<Suc (length luts) + length cfgs]"
    using Cons.IH [of "luts @ [Mat_empty]"] by simp
  also have "\<dots> = [length luts..<length luts + length (cfg # cfgs)]"
    by (subst (2) upt_rec) simp
  finally show ?case .
qed

section \<open>store and load\<close>

lemma forM_cong:
  "(\<And>i s. i \<in> set xs \<Longrightarrow> f i s = g i s) \<Longrightarrow> forM xs f s = forM xs g s"
  by (induction xs arbitrary: s) (simp_all split: sum.splits)

lemma project_depends:
  "n t' = n t \<Longrightarrow> centers t' = centers t \<Longrightarrow> project t' garbage v = project t garbage v"
proof -
  assume a: "n t' = n t" "centers t' = centers t"
  then have "project_step t' = project_step t"
    by (intro ext) (simp add: project_step_def)
  then show ?thesis unfolding project_def a(1) by (simp only:)
qed

lemma compare_depends:
  assumes "\<And>i. i < length a \<Longrightarrow> qat luts' i = qat luts i"
  shows "compare bay luts' a b = compare bay luts a b"
proof -
  have "forM [0..<length a] (compare_outer luts' a b) 0 = forM [0..<length a] (compare_outer luts a b) 0"
    by (rule forM_cong) (simp add: compare_outer_def assms)
  then show ?thesis by (simp add: compare_def)
qed

lemma store_Inr:
  "index t < length luts \<Longrightarrow>
     store c t luts s = Inr (s @ put_mats c (centers t) @ put_mat c (luts ! index t))"
  by (simp add: store_def qat_def bindR_Inr)

lemma load_written:
  assumes "lossless c" and "index t2 < length luts2"
  shows "load c t2 luts2 (put_mats c cs @ put_mat c m @ rest) =
           Inr (t2\<lparr>centers := cs\<rparr>, luts2[index t2 := m], rest)"
proof -
  from assms(1) have 1: "get_mats c (put_mats c cs @ put_mat c m @ rest) = Inr (cs, put_mat c m @ rest)"
    and 2: "get_mat c (put_mat c m @ rest) = Inr (m, rest)"
    by (simp_all add: lossless_def)
  show ?thesis
    using assms(2) by (simp add: load_def 1 2 bindR_Inr qat_def)
qed

text \<open>
  Claim C8.  With stream operators that read back what they wrote, \<^verbatim>\<open>store\<close> of a transform
  \<open>t\<close> followed by \<^verbatim>\<open>load\<close> into a transform of the same width gives a transform with the
  centers of \<open>t\<close>, and puts the table of \<open>t\<close> into the registry slot of the loading
  transform.  The restored transform encodes every vector to the same code as \<open>t\<close>; and
  when it has the identity of \<open>t\<close>, \<^verbatim>\<open>compare\<close> gives the same result for every pair of
  templates, given that the other slots \<^verbatim>\<open>compare\<close> reads (it takes slot \<open>i\<close> for matrix
  \<open>i\<close> of a template) are the same in both registries.
\<close>

theorem store_load_roundtrip:
  assumes "lossless c" and "index t < length luts" and "index t2 < length luts2"
    and "n t2 = n t"
  shows "\<exists>written t'.
     store c t luts s = Inr (s @ written) \<and>
     load c t2 luts2 (written @ rest) = Inr (t', luts2[index t2 := luts ! index t], rest) \<and>
     centers t' = centers t \<and> index t' = index t2 \<and>
     (\<forall>garbage v. project t' garbage v = project t garbage v) \<and>
     (index t2 = index t \<longrightarrow>
        (\<forall>bay a b. (\<forall>i<length a. i \<noteq> index t \<longrightarrow> qat luts2 i = qat luts i) \<longrightarrow>
           compare bay (luts2[index t2 := luts ! index t]) a b = compare bay luts a b))"
proof -
  let ?written = "put_mats c (centers t) @ put_mat c (luts ! index t)"
  let ?t' = "t2\<lparr>centers := centers t\<rparr>"
  let ?luts' = "luts2[index t2 := luts ! index t]"
  have st: "store c t luts s = Inr (s @ ?written)"
    by (rule store_Inr [OF assms(2)])
  have ld: "load c t2 luts2 (?written @ rest) = Inr (?t', ?luts', rest)"
    using load_written [OF assms(1,3), of "centers t" "luts ! index t" rest] by simp
  have pr: "\<forall>garbage v. project ?t' garbage v = project t garbage v"
    by (intro allI project_depends) (simp_all add: assms(4))
  have cmp: "compare bay ?luts' a b = compare bay luts a b"
    if same: "index t2 = index t" and others: "\<forall>i<length a. i \<noteq> index t \<longrightarrow> qat luts2 i = qat luts i"
    for bay a b
  proof (rule compare_depends)
    fix i assume i: "i < length a"
    show "qat ?luts' i = qat luts i"
    proof (cases "i = index t")
      case True
      with assms(2,3) same show ?thesis by (simp add: qat_def)
    next
      case False
      with others i have "qat luts2 i = qat luts i" by simp
      with False same show ?thesis by (simp add: qat_def split: if_splits)
    qed
  qed
  from st ld pr cmp show ?thesis
    by (intro exI [of _ ?written] exI [of _ ?t']) simp
qed

lemma lossless_item_codec: "lossless item_codec"
  by (simp add: lossless_def item_codec_def)

theorem store_load_roundtrip_witness:
  "lossless item_codec \<and> index pq_L1 < length [w_lut] \<and>
   index (fst (construct 2 dist_L1 False [])) < length [Mat_empty :: real mat] \<and>
   n (fst (construct 2 dist_L1 False [])) = n pq_L1 \<and>
   (\<exists>written t'.
      store item_codec pq_L1 [w_lut] [] = Inr written \<and>
      load item_codec (fst (construct 2 dist_L1 False [])) [Mat_empty] written = Inr (t', [w_lut], []) \<and>
      centers t' = [ex_codebook] \<and>
      project t' zero_bytes origin = project pq_L1 zero_bytes origin \<and>
      compare False [w_lut] [w_code 3] [w_code 5] = Inr (- ln 3))"
proof -
  let ?t2 = "fst (construct 2 dist_L1 False [])"
  have h1: "lossless item_codec" by (rule lossless_item_codec)
  have h2: "index pq_L1 < length [w_lut]" by (simp add: pq_L1_def)
  have h3: "index ?t2 < length [Mat_empty :: real mat]" by (simp add: construct_def)
  have h4: "n ?t2 = n pq_L1" by (simp add: construct_def pq_L1_def)
  have i: "index ?t2 = 0" "index pq_L1 = 0" "centers pq_L1 = [ex_codebook]"
    by (simp_all add: construct_def pq_L1_def)
  from store_load_roundtrip [OF h1 h2 h3 h4, of "[]" "[]"]
  obtain written t' where
    st: "store item_codec pq_L1 [w_lut] [] = Inr ([] @ written)"
    and ld: "load item_codec ?t2 [Mat_empty] (written @ []) =
      Inr (t', [Mat_empty][index ?t2 := [w_lut] ! index pq_L1], [])"
    and ce: "centers t' = centers pq_L1"
    and pr: "\<forall>garbage v. project t' garbage v = project pq_L1 garbage v"
    by blast
  from st have "store item_codec pq_L1 [w_lut] [] = Inr written" by simp
  moreover from ld have "load item_codec ?t2 [Mat_empty] written = Inr (t', [w_lut], [])"
    by (simp add: i)
  moreover from ce have "centers t' = [ex_codebook]" by (simp add: i)
  moreover from pr have "project t' zero_bytes origin = project pq_L1 zero_bytes origin" by blast
  moreover have "compare False [w_lut] [w_code 3] [w_code 5] = Inr (- ln 3)"
    by (simp add: compare_def compare_outer_def compare_inner_def bindR_def qat_def peek_def
        total_def w_lut_def w_code_def INT_MAX_def)
  ultimately show ?thesis using h1 h2 h3 h4 by blast
qed

section \<open>Calls before training\<close>

lemma forM_first_Inl:
  "xs \<noteq> [] \<Longrightarrow> body (hd xs) s = Inl e \<Longrightarrow> forM xs body s = Inl e"
  by (cases xs) simp_all

lemma sdiv_pos_bound:
  assumes "0 < int a sdiv b"
  shows "b \<le> int a"
proof -
  from assms have b: "0 < b" by (rule sdiv_pos_divisor)
  with assms have "0 < a div nat b" by (simp add: sdiv_nat_pos)
  then have "nat b \<le> a"
    by (metis div_less leI less_numeral_extra(3))
  with b show ?thesis by simp
qed

lemma project_no_centers:
  assumes "centers t = []"
  shows "project t garbage v =
     (if n t = 0 then Inl DivisionByZero
      else if int (total v) sdiv n t < 0 then Inl CvException
      else if int (total v) sdiv n t = 0 then Inr \<lparr>rows = 1, cols = 0, elems = []\<rparr>
      else Inl IndexOutOfRange)"
proof (cases "n t \<noteq> 0 \<and> 0 < int (total v) sdiv n t")
  case False
  then show ?thesis
    by (auto simp: project_def Let_def reshape_row_def Mat_new_def bindR_Inr)
next
  case True
  let ?c = "nat (int (total v) sdiv n t)"
  from True have pos: "0 < int (total v) sdiv n t" by simp
  have n: "0 < n t" by (rule sdiv_pos_divisor [OF pos])
  have le: "n t \<le> int (total v)" by (rule sdiv_pos_bound [OF pos])
  have ne: "[0..<?c] \<noteq> []" using pos by simp
  have hd0: "hd [0..<?c] = 0" using pos by (simp add: upt_conv_Cons)
  have step: "project_step t (reshape_row v) 0 (map garbage [0..<?c]) = Inl IndexOutOfRange"
    using n le assms
    by (simp add: project_step_def colRange_def reshape_row_def bindR_def qat_def)
  have "forM [0..<?c] (project_step t (reshape_row v)) (map garbage [0..<?c]) = Inl IndexOutOfRange"
    by (rule forM_first_Inl [OF ne]) (simp only: hd0 step)
  with True show ?thesis
    by (simp add: project_def Let_def reshape_row_def Mat_new_def bindR_Inl)
qed

lemma compare_empty_slot:
  "compare bay [Mat_empty] [a] [b] = (if total a = 0 then Inr 0 else Inl InvalidAccess)"
proof (cases "total a = 0")
  case True
  then show ?thesis
    by (simp add: compare_def compare_outer_def bindR_def qat_def)
next
  case False
  then have ne: "[0..<total a] \<noteq> []" and hd0: "hd [0..<total a] = 0"
    by (simp_all add: upt_conv_Cons)
  have step: "compare_inner (elems a) (elems b) [] 0 0 = Inl InvalidAccess"
    by (simp add: compare_inner_def bindR_def peek_def split: sum.splits)
  have "forM [0..<total a] (compare_inner (elems a) (elems b) []) 0 = Inl InvalidAccess"
    by (rule forM_first_Inl [OF ne]) (simp only: hd0 step)
  with False show ?thesis
    by (simp add: compare_def compare_outer_def bindR_def qat_def Mat_empty_def)
qed

text \<open>
  Claim C9 (amended).  On a transform that has only been constructed, encode raises no
  \<^verbatim>\<open>qFatal\<close>: it returns the empty code when \<open>D/n\<close> is zero and otherwise stops on the
  unchecked access \<^verbatim>\<open>centers[0]\<close> to the empty list of centers (for \<open>n = 0\<close> on the division
  by zero, for a negative \<open>D/n\<close> inside the OpenCV constructor).  \<^verbatim>\<open>compare\<close> on the slot
  the constructor appended, still the empty matrix, raises no \<^verbatim>\<open>qFatal\<close> either: it returns
  the score of the empty sum when the code has no elements and otherwise reads through the
  null data pointer of the slot.
\<close>

theorem untrained_calls:
  "project (fst (construct n0 distance0 bayesian0 luts)) garbage v =
     (if n0 = 0 then Inl DivisionByZero
      else if int (total v) sdiv n0 < 0 then Inl CvException
      else if int (total v) sdiv n0 = 0 then Inr \<lparr>rows = 1, cols = 0, elems = []\<rparr>
      else Inl IndexOutOfRange) \<and>
   compare bay (snd (construct n0 distance0 bayesian0 [])) [a] [b] =
     (if total a = 0 then Inr 0 else Inl InvalidAccess)"
proof
  have "centers (fst (construct n0 distance0 bayesian0 luts)) = []"
    and "n (fst (construct n0 distance0 bayesian0 luts)) = n0"
    by (simp_all add: construct_def)
  with project_no_centers [of "fst (construct n0 distance0 bayesian0 luts)" garbage v]
  show "project (fst (construct n0 distance0 bayesian0 luts)) garbage v =
     (if n0 = 0 then Inl DivisionByZero
      else if int (total v) sdiv n0 < 0 then Inl CvException
      else if int (total v) sdiv n0 = 0 then Inr \<lparr>rows = 1, cols = 0, elems = []\<rparr>
      else Inl IndexOutOfRange)"
    by simp
  show "compare bay (snd (construct n0 distance0 bayesian0 [])) [a] [b] =
     (if total a = 0 then Inr 0 else Inl InvalidAccess)"
    using compare_empty_slot [of bay a b] by (simp add: construct_def)
qed

theorem untrained_calls_witness:
  "project (fst (construct 2 dist_L1 False [])) zero_bytes origin = Inl IndexOutOfRange \<and>
   compare True (snd (construct 2 dist_L1 False [])) [w_code 3] [w_code 5] = Inl InvalidAccess"
  using untrained_calls [of 2 dist_L1 False "[]" zero_bytes origin True "w_code 3" "w_code 5"]
  by (simp add: origin_def total_def w_code_def)

text \<open>
  The claim as stated fails: an untrained transform encodes a vector shorter than its
  width to the empty code and compares two empty codes to the score 0, both without any
  failure; and on the vector \<open>(0, 0)\<close> and on one-byte codes the calls stop on unchecked
  accesses, not on a \<^verbatim>\<open>qFatal\<close> with a diagnostic.
\<close>

theorem untrained_calls_not_fatal:
  "project (fst (construct 2 dist_L1 False [])) zero_bytes one_value
     = Inr \<lparr>rows = 1, cols = 0, elems = []\<rparr> \<and>
   compare False (snd (construct 2 dist_L1 False [])) [Mat_empty] [Mat_empty] = Inr 0 \<and>
   project (fst (construct 2 dist_L1 False [])) zero_bytes origin = Inl IndexOutOfRange \<and>
   compare False (snd (construct 2 dist_L1 False [])) [w_code 3] [w_code 5] = Inl InvalidAccess"
proof -
  have c: "centers (fst (construct 2 dist_L1 False [])) = []"
    and n: "n (fst (construct 2 dist_L1 False [])) = 2"
    and s: "snd (construct 2 dist_L1 False []) = [Mat_empty]"
    by (simp_all add: construct_def)
  have p1: "project (fst (construct 2 dist_L1 False [])) zero_bytes one_value
     = Inr \<lparr>rows = 1, cols = 0, elems = []\<rparr>"
    unfolding project_no_centers [OF c] n by (simp add: one_value_def total_def signed_divide_int_def)
  have p2: "project (fst (construct 2 dist_L1 False [])) zero_bytes origin = Inl IndexOutOfRange"
    unfolding project_no_centers [OF c] n by (simp add: origin_def total_def signed_divide_int_def)
  have c1: "compare False (snd (construct 2 dist_L1 False [])) [Mat_empty] [Mat_empty] = Inr 0"
    unfolding s compare_empty_slot by (simp add: total_def Mat_empty_def)
  have c2: "compare False (snd (construct 2 dist_L1 False [])) [w_code 3] [w_code 5] = Inl InvalidAccess"
    unfolding s compare_empty_slot by (simp add: total_def w_code_def)
  from p1 c1 p2 c2 show ?thesis by (intro conjI)
qed

section \<open>Training\<close>

lemma forM_map: "forM (map g xs) body s = forM xs (\<lambda>i. body (g i)) s"
  by (induction xs arbitrary: s) (simp_all split: sum.splits)

lemma forM_shift: "forM [c..<c + b] body s = forM [0..<b] (\<lambda>k. body (c + k)) s"
proof -
  have "[c..<c + b] = [c..<b + c]" by (simp only: add.commute)
  also have "\<dots> = map (\<lambda>i. i + c) [0..<b]" by (rule map_add_upt [symmetric])
  also have "\<dots> = map (\<lambda>k. c + k) [0..<b]" by (rule map_cong [OF refl]) (rule add.commute)
  finally show ?thesis by (simp only: forM_map)
qed

lemma forM_nested_flat:
  assumes "0 < b"
  shows "forM [0..<a] (\<lambda>j. forM [0..<b] (body j)) s =
         forM [0..<a * b] (\<lambda>i. body (i div b) (i mod b)) s"
proof (induction a arbitrary: s)
  case 0
  then show ?case by simp
next
  case (Suc a)
  have "Suc a * b = a * b + b" by simp
  then have split: "[0..<Suc a * b] = [0..<a * b] @ [a * b..<a * b + b]"
    by (simp only: upt_add_eq_append [OF le0])
  have last: "forM [a * b..<a * b + b] (\<lambda>i. body (i div b) (i mod b)) u = forM [0..<b] (body a) u" for u
    unfolding forM_shift
  proof (rule forM_cong)
    fix i u assume "i \<in> set [0..<b]"
    then have "i < b" by simp
    then have "(a * b + i) div b = a" "(a * b + i) mod b = i" by simp_all
    then show "body ((a * b + i) div b) ((a * b + i) mod b) u = body a i u" by (simp only:)
  qed
  have last': "forM [a * b..<a * b + b] (\<lambda>i. body (i div b) (i mod b)) = forM [0..<b] (body a)"
    by (rule ext) (rule last)
  have "forM [0..<Suc a] (\<lambda>j. forM [0..<b] (body j)) s =
        forM ([0..<a] @ [a]) (\<lambda>j. forM [0..<b] (body j)) s"
    by simp
  also have "\<dots> = bindR (forM [0..<a] (\<lambda>j. forM [0..<b] (body j)) s)
                         (forM [a] (\<lambda>j. forM [0..<b] (body j)))"
    by (rule forM_append)
  also have "forM [a] (\<lambda>j. forM [0..<b] (body j)) = forM [0..<b] (body a)"
    by (rule ext) (rule forM_single)
  also have "bindR (forM [0..<a] (\<lambda>j. forM [0..<b] (body j)) s) (forM [0..<b] (body a)) =
             bindR (forM [0..<a * b] (\<lambda>i. body (i div b) (i mod b)) s)
                         (forM [a * b..<a * b + b] (\<lambda>i. body (i div b) (i mod b)))"
    unfolding Suc.IH last' ..
  also have "\<dots> = forM [0..<Suc a * b] (\<lambda>i. body (i div b) (i mod b)) s"
    unfolding split forM_append ..
  finally show ?case .
qed

lemma cells_inv_step:
  assumes inv: "cells_inv R off buf k b"
    and range: "off + k < length b" and v: "R k (b ! (off + k)) v"
  shows "cells_inv R off buf (Suc k) (b[off + k := v])"
proof -
  from inv have len: "length b = length buf"
    and prev: "\<And>i. i < k \<Longrightarrow> R i (buf ! (off + i)) (b ! (off + i))"
    and rest: "\<And>p. p < off \<or> off + k \<le> p \<Longrightarrow> b ! p = buf ! p"
    unfolding cells_inv_def by blast+
  have same: "b ! (off + k) = buf ! (off + k)" by (rule rest) simp
  have 1: "length (b[off + k := v]) = length buf" using len by simp
  have 2: "off + Suc k \<le> length buf" using range len by simp
  have 3: "R i (buf ! (off + i)) (b[off + k := v] ! (off + i))" if "i < Suc k" for i
  proof (cases "i = k")
    case True
    with v same range show ?thesis by simp
  next
    case False
    with that have "i < k" by simp
    from prev [OF this] False show ?thesis by simp
  qed
  have 4: "b[off + k := v] ! p = buf ! p" if "p < off \<or> off + Suc k \<le> p" for p
  proof -
    from that have "p \<noteq> off + k" by auto
    then have "b[off + k := v] ! p = b ! p" by simp
    also have "\<dots> = buf ! p" by (rule rest) (use that in auto)
    finally show ?thesis .
  qed
  show ?thesis unfolding cells_inv_def using 1 2 3 4 by blast
qed

lemma cells_loop:
  assumes loop: "forM [0..<m] body buf = Inr buf'"
    and step: "\<And>i b b'. i < m \<Longrightarrow> body i b = Inr b' \<Longrightarrow>
                 off + i < length b \<and> (\<exists>v. R i (b ! (off + i)) v \<and> b' = b[off + i := v])"
  shows "cells_inv R off buf m buf'"
proof (rule forM_upt_inv [OF loop, where P = "cells_inv R off buf"])
  show "cells_inv R off buf 0 buf" by (simp add: cells_inv_def)
next
  fix k b b'
  assume k: "k < m" and inv: "cells_inv R off buf k b" and body: "body k b = Inr b'"
  from step [OF k body] obtain v where
    range: "off + k < length b" and v: "R k (b ! (off + k)) v" and b': "b' = b[off + k := v]"
    by blast
  show "cells_inv R off buf (Suc k) b'"
    unfolding b' by (rule cells_inv_step [OF inv range v])
qed simp

lemma cells_invD:
  assumes "cells_inv R off buf m b"
  shows "length b = length buf"
    and "0 < m \<Longrightarrow> off + m \<le> length buf"
    and "\<And>i. i < m \<Longrightarrow> R i (buf ! (off + i)) (b ! (off + i))"
    and "\<And>p. p < off \<or> off + m \<le> p \<Longrightarrow> b ! p = buf ! p"
  using assms unfolding cells_inv_def by blast+

lemma table_loop:
  assumes loop: "forM [0..<256] (\<lambda>j. forM [0..<256] (body j)) buf = Inr buf'"
    and step: "\<And>j k b b'. j < 256 \<Longrightarrow> k < 256 \<Longrightarrow> body j k b = Inr b' \<Longrightarrow>
                 off + (j * 256 + k) < length b \<and>
                 (\<exists>v. R j k (b ! (off + (j * 256 + k))) v \<and> b' = b[off + (j * 256 + k) := v])"
  shows "length buf' = length buf \<and> off + 65536 \<le> length buf \<and>
         (\<forall>j<256. \<forall>k<256. R j k (buf ! (off + (j * 256 + k))) (buf' ! (off + (j * 256 + k)))) \<and>
         (\<forall>p. p < off \<or> off + 65536 \<le> p \<longrightarrow> buf' ! p = buf ! p)"
proof -
  have sz: "(256::nat) * 256 = 65536" by simp
  have "forM [0..<256 * 256] (\<lambda>i. body (i div 256) (i mod 256)) buf = Inr buf'"
    using loop by (simp only: forM_nested_flat [OF zero_less_numeral])
  then have flat: "forM [0..<65536] (\<lambda>i. body (i div 256) (i mod 256)) buf = Inr buf'"
    by (simp only: sz)
  have "cells_inv (\<lambda>i. R (i div 256) (i mod 256)) off buf 65536 buf'"
  proof (rule cells_loop [OF flat])
    fix i :: nat and b b'
    assume i: "i < 65536" and body: "body (i div 256) (i mod 256) b = Inr b'"
    from i have d: "i div 256 < 256" and m: "i mod 256 < 256" by simp_all
    have e: "i div 256 * 256 + i mod 256 = i" by simp
    from step [OF d m body]
    show "off + i < length b \<and> (\<exists>v. R (i div 256) (i mod 256) (b ! (off + i)) v \<and> b' = b[off + i := v])"
      unfolding e .
  qed
  note inv = cells_invD [OF this]
  have len: "length buf' = length buf" by (rule inv(1))
  have fits: "off + 65536 \<le> length buf" by (rule inv(2)) simp
  have cells: "R (i div 256) (i mod 256) (buf ! (off + i)) (buf' ! (off + i))" if "i < 65536" for i
    by (rule inv(3) [OF that])
  have rest: "\<forall>p. p < off \<or> off + 65536 \<le> p \<longrightarrow> buf' ! p = buf ! p"
    using inv(4) by blast
  have "R j k (buf ! (off + (j * 256 + k))) (buf' ! (off + (j * 256 + k)))"
    if j: "j < 256" and k: "k < 256" for j k
  proof -
    from j k have lt: "j * 256 + k < 65536" by simp
    from k have d: "(j * 256 + k) div 256 = j" and m: "(j * 256 + k) mod 256 = k" by simp_all
    from cells [OF lt] show ?thesis unfolding d m .
  qed
  with len fits rest show ?thesis by blast
qed

lemma lut_write_Inr_iff:
  "lut_write buf off (int j * 256 + int k) v = Inr b' \<longleftrightarrow>
     j * 256 + k < 65536 \<and> off + (j * 256 + k) < length buf \<and> b' = buf[off + (j * 256 + k) := v]"
proof -
  have "nat (int j * 256 + int k) = j * 256 + k"
    by (simp add: nat_add_distrib nat_mult_distrib)
  moreover have "int j * 256 + int k < 256 * 256 \<longleftrightarrow> j * 256 + k < 65536"
    by linarith
  ultimately show ?thesis
    by (auto simp: lut_write_def)
qed

lemma lut_read_Inr_iff:
  "lut_read buf off c = Inr x \<longleftrightarrow>
     0 \<le> c \<and> c < 65536 \<and> off + nat c < length buf \<and> x = buf ! (off + nat c)"
  by (auto simp: lut_read_def)

lemma lut_read_cell:
  "lut_read buf off (int j * 256 + int k) = Inr x \<longleftrightarrow>
     j * 256 + k < 65536 \<and> off + (j * 256 + k) < length buf \<and> x = buf ! (off + (j * 256 + k))"
proof -
  have "nat (int j * 256 + int k) = j * 256 + k"
    by (simp add: nat_add_distrib nat_mult_distrib)
  moreover have "int j * 256 + int k < 65536 \<longleftrightarrow> j * 256 + k < 65536"
    by linarith
  ultimately show ?thesis
    by (auto simp: lut_read_Inr_iff)
qed

lemma fill_table_result:
  assumes "fill_table t center off buf = Inr buf1"
  shows "length buf1 = length buf \<and> off + 65536 \<le> length buf \<and>
         (\<forall>j<256. \<forall>k<256. center_distance t center j k (buf1 ! (off + (j * 256 + k)))) \<and>
         (\<forall>p. p < off \<or> off + 65536 \<le> p \<longrightarrow> buf1 ! p = buf ! p)"
proof (rule table_loop [where R = "\<lambda>j k old v. center_distance t center j k v"
      and body = "fill_cell t center off"])
  show "forM [0..<256] (\<lambda>j. forM [0..<256] (fill_cell t center off j)) buf = Inr buf1"
    using assms unfolding fill_table_def .
next
  fix j k :: nat and b b'
  assume "fill_cell t center off j k b = Inr b'"
  then obtain v where v: "center_distance t center j k v"
    and w: "lut_write b off (int j * 256 + int k) v = Inr b'"
    unfolding fill_cell_def center_distance_def bindR_Inr_iff by blast
  from w v show "off + (j * 256 + k) < length b \<and>
      (\<exists>v. center_distance t center j k v \<and> b' = b[off + (j * 256 + k) := v])"
    unfolding lut_write_Inr_iff by blast
qed

lemma calibrate_table_result:
  assumes "calibrate_table e gs hg is hi off buf1 = Inr buf2"
  shows "length buf2 = length buf1 \<and> off + 65536 \<le> length buf1 \<and>
         (\<forall>j<256. \<forall>k<256. calibrated e gs hg is hi (buf1 ! (off + (j * 256 + k)))
                                                      (buf2 ! (off + (j * 256 + k)))) \<and>
         (\<forall>p. p < off \<or> off + 65536 \<le> p \<longrightarrow> buf2 ! p = buf1 ! p)"
proof (rule table_loop [where R = "\<lambda>j k old v. calibrated e gs hg is hi old v"
      and body = "calibrate_cell e gs hg is hi off"])
  show "forM [0..<256] (\<lambda>j. forM [0..<256] (calibrate_cell e gs hg is hi off j)) buf1 = Inr buf2"
    using assms unfolding calibrate_table_def .
next
  fix j k :: nat and b b'
  assume "calibrate_cell e gs hg is hi off j k b = Inr b'"
  then obtain x g y i where x: "lut_read b off (int j * 256 + int k) = Inr x"
    and g: "KernelDensityEstimation e gs x hg = Inr g"
    and y: "lut_read b off (int j * 256 + int k) = Inr y"
    and i: "KernelDensityEstimation e is y hi = Inr i"
    and w: "lut_write b off (int j * 256 + int k) (ln (g / i)) = Inr b'"
    unfolding calibrate_cell_def bindR_Inr_iff by blast
  from x y have yx: "y = x" and xv: "x = b ! (off + (j * 256 + k))"
    unfolding lut_read_cell by simp_all
  from g i have "calibrated e gs hg is hi (b ! (off + (j * 256 + k))) (ln (g / i))"
    unfolding calibrated_def yx xv by blast
  with w show "off + (j * 256 + k) < length b \<and>
      (\<exists>v. calibrated e gs hg is hi (b ! (off + (j * 256 + k))) v \<and> b' = b[off + (j * 256 + k) := v])"
    unfolding lut_write_Inr_iff by blast
qed

lemma score_pair_Inr:
  assumes "score_pair buf off indicies labels i j s = Inr s'"
  shows "s' = (if labels ! i = labels ! j
               then (fst s @ [pair_score (\<lambda>c. buf ! (off + c)) indicies i j], snd s)
               else (fst s, snd s @ [pair_score (\<lambda>c. buf ! (off + c)) indicies i j]))"
  using assms
  unfolding score_pair_def bindR_Inr_iff qat_Inr_iff lut_read_Inr_iff pair_score_def
  by auto

lemma collect_inner:
  assumes "forM [lo..<hi] (score_pair buf off indicies labels i) s = Inr s'" and "lo \<le> hi"
  shows "fst s' = fst s @ map (pair_score (\<lambda>c. buf ! (off + c)) indicies i)
                              (filter (\<lambda>j. labels ! i = labels ! j) [lo..<hi]) \<and>
         snd s' = snd s @ map (pair_score (\<lambda>c. buf ! (off + c)) indicies i)
                              (filter (\<lambda>j. labels ! i \<noteq> labels ! j) [lo..<hi])"
proof (rule forM_upt_inv [OF assms(1,2), where P = "\<lambda>k u.
         fst u = fst s @ map (pair_score (\<lambda>c. buf ! (off + c)) indicies i)
                              (filter (\<lambda>j. labels ! i = labels ! j) [lo..<k]) \<and>
         snd u = snd s @ map (pair_score (\<lambda>c. buf ! (off + c)) indicies i)
                              (filter (\<lambda>j. labels ! i \<noteq> labels ! j) [lo..<k])"])
  fix k a b
  assume lo: "lo \<le> k"
    and inv: "fst a = fst s @ map (pair_score (\<lambda>c. buf ! (off + c)) indicies i)
                              (filter (\<lambda>j. labels ! i = labels ! j) [lo..<k]) \<and>
         snd a = snd s @ map (pair_score (\<lambda>c. buf ! (off + c)) indicies i)
                              (filter (\<lambda>j. labels ! i \<noteq> labels ! j) [lo..<k])"
    and step: "score_pair buf off indicies labels i k a = Inr b"
  from lo have up: "[lo..<Suc k] = [lo..<k] @ [k]" by simp
  show "fst b = fst s @ map (pair_score (\<lambda>c. buf ! (off + c)) indicies i)
                              (filter (\<lambda>j. labels ! i = labels ! j) [lo..<Suc k]) \<and>
         snd b = snd s @ map (pair_score (\<lambda>c. buf ! (off + c)) indicies i)
                              (filter (\<lambda>j. labels ! i \<noteq> labels ! j) [lo..<Suc k])"
    unfolding up score_pair_Inr [OF step] using inv by simp
qed simp

lemma collect_scores_result:
  assumes "collect_scores buf off indicies labels = Inr s"
  shows "fst s = genuine_population (\<lambda>c. buf ! (off + c)) indicies labels \<and>
         snd s = impostor_population (\<lambda>c. buf ! (off + c)) indicies labels"
proof -
  let ?N = "length indicies"
  let ?raw = "\<lambda>c. buf ! (off + c)"
  let ?G = "\<lambda>i. map (pair_score ?raw indicies i) (filter (\<lambda>j. labels ! i = labels ! j) [i + 1..<?N])"
  let ?I = "\<lambda>i. map (pair_score ?raw indicies i) (filter (\<lambda>j. labels ! i \<noteq> labels ! j) [i + 1..<?N])"
  have loop: "forM [0..<?N] (\<lambda>i. forM [i + 1..<?N] (score_pair buf off indicies labels i)) ([], []) = Inr s"
    using assms unfolding collect_scores_def .
  have "fst s = concat (map ?G [0..<?N]) \<and> snd s = concat (map ?I [0..<?N])"
  proof (rule forM_upt_inv [OF loop, where P = "\<lambda>k u.
           fst u = concat (map ?G [0..<k]) \<and> snd u = concat (map ?I [0..<k])"])
    fix k a b
    assume k: "k < ?N"
      and inv: "fst a = concat (map ?G [0..<k]) \<and> snd a = concat (map ?I [0..<k])"
      and step: "forM [k + 1..<?N] (score_pair buf off indicies labels k) a = Inr b"
    from k have "k + 1 \<le> ?N" by simp
    from collect_inner [OF step this] inv
    show "fst b = concat (map ?G [0..<Suc k]) \<and> snd b = concat (map ?I [0..<Suc k])"
      by simp
  qed simp_all
  then show ?thesis
    unfolding genuine_population_def impostor_population_def .
qed

lemma train_subspace_result:
  assumes "train_subspace e t sub labels buf off = Inr r"
  shows "length (fst r) = length buf \<and> off + 65536 \<le> length buf \<and>
         (\<forall>p. p < off \<or> off + 65536 \<le> p \<longrightarrow> fst r ! p = buf ! p) \<and>
         subspace_result e t sub labels (snd r) (\<lambda>c. fst r ! (off + c))"
proof -
  from assms obtain clustering buf1 where
    km: "kmeans e sub 256 = Inr clustering"
    and fill: "fill_table t (snd clustering) off buf = Inr buf1"
    and rest: "(if \<not> bayesian t then Inr (buf1, snd clustering)
       else
         bindR (collect_scores buf1 off (fst clustering) labels) (\<lambda>scores.
         bindR (Downsample e (fst scores) 256) (\<lambda>genuineScores.
         bindR (Downsample e (snd scores) 256) (\<lambda>impostorScores.
         bindR (KernelDensityBandwidth e genuineScores) (\<lambda>hGenuine.
         bindR (KernelDensityBandwidth e impostorScores) (\<lambda>hImpostor.
         bindR (calibrate_table e genuineScores hGenuine impostorScores hImpostor off buf1) (\<lambda>buf2.
         Inr (buf2, snd clustering)))))))) = Inr r"
    unfolding train_subspace_def bindR_Inr_iff by blast
  note f = fill_table_result [OF fill]
  from f have raw: "raw_table t (snd clustering) (\<lambda>c. buf1 ! (off + c))"
    unfolding raw_table_def by blast
  have km': "kmeans e sub 256 = Inr (fst clustering, snd clustering)"
    using km by simp
  show ?thesis
  proof (cases "bayesian t")
    case False
    with rest have r: "r = (buf1, snd clustering)" by simp
    from raw km' False have "subspace_result e t sub labels (snd clustering) (\<lambda>c. buf1 ! (off + c))"
      unfolding subspace_result_def by (intro exI [of _ "fst clustering"]) simp
    with f show ?thesis unfolding r by simp
  next
    case True
    with rest obtain scores gs ms hg hm buf2 where
      cs: "collect_scores buf1 off (fst clustering) labels = Inr scores"
      and dg: "Downsample e (fst scores) 256 = Inr gs"
      and dm: "Downsample e (snd scores) 256 = Inr ms"
      and bg: "KernelDensityBandwidth e gs = Inr hg"
      and bm: "KernelDensityBandwidth e ms = Inr hm"
      and cal: "calibrate_table e gs hg ms hm off buf1 = Inr buf2"
      and r: "r = (buf2, snd clustering)"
      by (auto simp: bindR_Inr_iff)
    note c = calibrate_table_result [OF cal]
    note p = collect_scores_result [OF cs]
    from dg have dg': "Downsample e (genuine_population (\<lambda>c. buf1 ! (off + c)) (fst clustering) labels) 256 = Inr gs"
      by (simp only: p [THEN conjunct1])
    from dm have dm': "Downsample e (impostor_population (\<lambda>c. buf1 ! (off + c)) (fst clustering) labels) 256 = Inr ms"
      by (simp only: p [THEN conjunct2])
    have "calibrated_table e t labels (fst clustering) (snd clustering) (\<lambda>c. buf2 ! (off + c))"
    proof -
      from c have cells: "\<forall>j<256. \<forall>k<256. calibrated e gs hg ms hm
          (buf1 ! (off + (j * 256 + k))) (buf2 ! (off + (j * 256 + k)))"
        by blast
      show ?thesis
        unfolding calibrated_table_def
        apply (rule exI [of _ "\<lambda>c. buf1 ! (off + c)"])
        apply (rule exI [of _ gs])
        apply (rule exI [of _ ms])
        apply (rule exI [of _ hg])
        apply (rule exI [of _ hm])
        apply (intro conjI raw dg' dm' bg bm cells)
        done
    qed
    with km' True have "subspace_result e t sub labels (snd clustering) (\<lambda>c. buf2 ! (off + c))"
      unfolding subspace_result_def by (intro exI [of _ "fst clustering"]) simp
    moreover have "length buf2 = length buf" "off + 65536 \<le> length buf"
      using c f by simp_all
    moreover have "\<forall>p. p < off \<or> off + 65536 \<le> p \<longrightarrow> buf2 ! p = buf ! p"
      using c f by simp
    ultimately show ?thesis unfolding r by simp
  qed
qed

lemma center_distance_rows:
  "center_distance t center j k v \<Longrightarrow> j < rows center \<and> k < rows center"
  unfolding center_distance_def bindR_Inr_iff row_Inr_iff by blast

lemma raw_table_cong:
  "(\<And>c. c < 65536 \<Longrightarrow> f c = g c) \<Longrightarrow> raw_table t center f \<Longrightarrow> raw_table t center g"
proof -
  assume eq: "\<And>c. c < 65536 \<Longrightarrow> f c = g c" and f: "raw_table t center f"
  have "center_distance t center j k (g (j * 256 + k))" if "j < 256" "k < 256" for j k :: nat
  proof -
    from that have "j * 256 + k < 65536" by simp
    note fg = eq [OF this]
    from f that have "center_distance t center j k (f (j * 256 + k))"
      unfolding raw_table_def by blast
    then show ?thesis unfolding fg .
  qed
  then show ?thesis unfolding raw_table_def by blast
qed

lemma calibrated_table_cong:
  assumes eq: "\<And>c. c < 65536 \<Longrightarrow> f c = g c"
    and f: "calibrated_table e t labels indicies center f"
  shows "calibrated_table e t labels indicies center g"
proof -
  from f obtain raw gs ms hg hm where
    raw: "raw_table t center raw"
    and dg: "Downsample e (genuine_population raw indicies labels) 256 = Inr gs"
    and dm: "Downsample e (impostor_population raw indicies labels) 256 = Inr ms"
    and bg: "KernelDensityBandwidth e gs = Inr hg"
    and bm: "KernelDensityBandwidth e ms = Inr hm"
    and cells: "\<forall>j<256. \<forall>k<256. calibrated e gs hg ms hm (raw (j * 256 + k)) (f (j * 256 + k))"
    unfolding calibrated_table_def by blast
  have cells': "\<forall>j<256. \<forall>k<256. calibrated e gs hg ms hm (raw (j * 256 + k)) (g (j * 256 + k))"
  proof (intro allI impI)
    fix j k :: nat assume jk: "j < 256" "k < 256"
    then have "j * 256 + k < 65536" by simp
    note fg = eq [OF this]
    from cells jk have "calibrated e gs hg ms hm (raw (j * 256 + k)) (f (j * 256 + k))"
      by blast
    then show "calibrated e gs hg ms hm (raw (j * 256 + k)) (g (j * 256 + k))"
      unfolding fg .
  qed
  show ?thesis
    unfolding calibrated_table_def
    apply (rule exI [of _ raw])
    apply (rule exI [of _ gs])
    apply (rule exI [of _ ms])
    apply (rule exI [of _ hg])
    apply (rule exI [of _ hm])
    apply (intro conjI raw dg dm bg bm cells')
    done
qed

lemma subspace_result_cong:
  assumes "\<And>c. c < 65536 \<Longrightarrow> f c = g c"
    and "subspace_result e t sub labels center f"
  shows "subspace_result e t sub labels center g"
proof -
  from assms(2) obtain indicies where km: "kmeans e sub 256 = Inr (indicies, center)"
    and f: "if bayesian t then calibrated_table e t labels indicies center f
            else raw_table t center f"
    unfolding subspace_result_def by blast
  have "if bayesian t then calibrated_table e t labels indicies center g
        else raw_table t center g"
  proof (cases "bayesian t")
    case True
    with f have "calibrated_table e t labels indicies center f" by simp
    then have "calibrated_table e t labels indicies center g"
      by (rule calibrated_table_cong [rotated]) (rule assms(1))
    with True show ?thesis by simp
  next
    case False
    with f have "raw_table t center f" by simp
    then have "raw_table t center g"
      by (rule raw_table_cong [rotated]) (rule assms(1))
    with False show ?thesis by simp
  qed
  with km show ?thesis unfolding subspace_result_def by blast
qed

lemma train_prepare_result:
  assumes "forM [0..<r] (train_prepare t data) (cs0, []) = Inr p"
  shows "fst p = cs0 @ replicate r Mat_empty \<and> length (snd p) = r \<and>
         (\<forall>i<r. colRange data (int i * n t) ((int i + 1) * n t) = Inr (snd p ! i))"
proof (rule forM_upt_inv [OF assms, where P = "\<lambda>k u.
         fst u = cs0 @ replicate k Mat_empty \<and> length (snd u) = k \<and>
         (\<forall>i<k. colRange data (int i * n t) ((int i + 1) * n t) = Inr (snd u ! i))"])
  fix k a b
  assume inv: "fst a = cs0 @ replicate k Mat_empty \<and> length (snd a) = k \<and>
         (\<forall>i<k. colRange data (int i * n t) ((int i + 1) * n t) = Inr (snd a ! i))"
    and step: "train_prepare t data k a = Inr b"
  from step obtain sub where sub: "colRange data (int k * n t) ((int k + 1) * n t) = Inr sub"
    and b: "b = (fst a @ [Mat_empty], snd a @ [sub])"
    unfolding train_prepare_def bindR_Inr_iff by auto
  show "fst b = cs0 @ replicate (Suc k) Mat_empty \<and> length (snd b) = Suc k \<and>
         (\<forall>i<Suc k. colRange data (int i * n t) ((int i + 1) * n t) = Inr (snd b ! i))"
    using inv sub unfolding b
    by (auto simp: replicate_append_same less_Suc_eq nth_append)
qed simp_all

lemma run_inv_step:
  assumes inv: "run_inv e t labels subdata cs0 len k s"
    and step: "train_run e t labels subdata k s = Inr s'"
  shows "run_inv e t labels subdata cs0 len (Suc k) s'"
proof -
  from step obtain r where k: "k < length subdata" "k < length (fst s)"
    and tr: "train_subspace e t (subdata ! k) labels (snd s) (k * 65536) = Inr r"
    and s': "s' = ((fst s)[k := snd r], fst r)"
    unfolding train_run_def bindR_Inr_iff qat_Inr_iff by auto
  note res = train_subspace_result [OF tr]
  from inv have len: "length (snd s) = len" and lcs: "length (fst s) = length cs0"
    and prev: "\<And>i. i < k \<Longrightarrow> subspace_result e t (subdata ! i) labels (fst s ! i)
                (\<lambda>c. snd s ! (i * 65536 + c))"
    and later: "\<And>i. k \<le> i \<Longrightarrow> fst s ! i = cs0 ! i"
    unfolding run_inv_def by blast+
  from res have frame: "\<And>p. p < k * 65536 \<or> k * 65536 + 65536 \<le> p \<Longrightarrow> fst r ! p = snd s ! p"
    by blast
  have 1: "length (snd s') = len" using res len unfolding s' by simp
  have 2: "length (fst s') = length cs0" using lcs unfolding s' by simp
  have 3: "subspace_result e t (subdata ! i) labels (fst s' ! i) (\<lambda>c. snd s' ! (i * 65536 + c))"
    if "i < Suc k" for i
  proof (cases "i = k")
    case True
    with res k show ?thesis unfolding s' by simp
  next
    case False
    with that have i: "i < k" by simp
    have same: "fst r ! (i * 65536 + c) = snd s ! (i * 65536 + c)" if "c < 65536" for c
    proof (rule frame)
      from i have "Suc i \<le> k" by simp
      then have "Suc i * 65536 \<le> k * 65536" by (rule mult_le_mono1)
      with that show "i * 65536 + c < k * 65536 \<or> k * 65536 + 65536 \<le> i * 65536 + c" by simp
    qed
    have "subspace_result e t (subdata ! i) labels (fst s ! i) (\<lambda>c. fst r ! (i * 65536 + c))"
      by (rule subspace_result_cong [OF _ prev [OF i]]) (simp add: same)
    with False show ?thesis unfolding s' by simp
  qed
  have 4: "fst s' ! i = cs0 ! i" if "Suc k \<le> i" for i
    using that later [of i] unfolding s' by simp
  from 1 2 3 4 show ?thesis unfolding run_inv_def by blast
qed

lemma train_run_result:
  assumes "forM [0..<r] (train_run e t labels subdata) (cs0, buf0) = Inr s"
  shows "run_inv e t labels subdata cs0 (length buf0) r s"
proof (rule forM_upt_inv [OF assms, where P = "run_inv e t labels subdata cs0 (length buf0)"])
  show "run_inv e t labels subdata cs0 (length buf0) 0 (cs0, buf0)"
    by (simp add: run_inv_def)
qed (simp, rule run_inv_step)

lemma train_result:
  assumes "train e t luts data labels = Inr res"
  shows "n t \<noteq> 0 \<and> n t dvd int (cols data) \<and> 0 \<le> int (cols data) sdiv n t \<and>
         index t < length luts \<and>
         fst res = t\<lparr>centers := centers (fst res)\<rparr> \<and>
         length (centers (fst res)) = length (centers t) + subspaces t data \<and>
         (\<forall>i\<ge>subspaces t data. centers (fst res) ! i = (centers t @ replicate (subspaces t data) Mat_empty) ! i) \<and>
         length (snd res) = length luts \<and>
         (\<forall>i. i \<noteq> index t \<longrightarrow> snd res ! i = luts ! i) \<and>
         rows (snd res ! index t) = subspaces t data \<and>
         cols (snd res ! index t) = 65536 \<and>
         length (elems (snd res ! index t)) = subspaces t data * 65536 \<and>
         (\<forall>i < subspaces t data. \<exists>sub.
            colRange data (int i * n t) ((int i + 1) * n t) = Inr sub \<and>
            subspace_result e t sub labels (centers (fst res) ! i)
              (\<lambda>c. elems (snd res ! index t) ! (i * 65536 + c)))"
proof -
  let ?r = "subspaces t data"
  let ?lut = "Mat_new ?r (256 * 256) (uninitialised e)"
  from assms have nz: "n t \<noteq> 0" and dv: "int (cols data) smod n t = 0"
    and ix: "index t < length luts" and nn: "0 \<le> int (cols data) sdiv n t"
    by (auto simp: train_def split: if_splits)
  have rl: "rows ?lut = ?r" and el: "elems ?lut = map (uninitialised e) [0..<?r * 65536]"
    by (simp_all add: Mat_new_def)
  from assms nz dv ix nn obtain prepared trained where
    prep: "forM [0..<?r] (train_prepare t data) (centers t, []) = Inr prepared"
    and run: "forM [0..<?r] (train_run e t labels (snd prepared)) (fst prepared, elems ?lut) = Inr trained"
    and res: "res = (t\<lparr>centers := fst trained\<rparr>, luts[index t := ?lut\<lparr>elems := snd trained\<rparr>])"
    unfolding train_def Let_def subspaces_def [symmetric] rl
    by (auto simp: bindR_Inr_iff simp del: upt_rec_numeral)
  note p = train_prepare_result [OF prep]
  from p have fp: "fst prepared = centers t @ replicate ?r Mat_empty" by blast
  from run have "run_inv e t labels (snd prepared) (centers t @ replicate ?r Mat_empty)
      (length (elems ?lut)) ?r trained"
    unfolding fp by (rule train_run_result)
  then have len: "length (snd trained) = ?r * 65536"
    and lcs: "length (fst trained) = length (centers t) + ?r"
    and subs: "\<And>i. i < ?r \<Longrightarrow> subspace_result e t (snd prepared ! i) labels (fst trained ! i)
                (\<lambda>c. snd trained ! (i * 65536 + c))"
    and later: "\<And>i. ?r \<le> i \<Longrightarrow> fst trained ! i = (centers t @ replicate ?r Mat_empty) ! i"
    unfolding run_inv_def el by simp_all
  have slot: "snd res ! index t = ?lut\<lparr>elems := snd trained\<rparr>"
    using ix unfolding res by simp
  have dvd: "n t dvd int (cols data)"
    using dv by (simp only: smod_eq_0_iff_dvd)
  have each: "\<exists>sub. colRange data (int i * n t) ((int i + 1) * n t) = Inr sub \<and>
            subspace_result e t sub labels (centers (fst res) ! i)
              (\<lambda>c. elems (snd res ! index t) ! (i * 65536 + c))" if "i < ?r" for i
  proof -
    from p that have "colRange data (int i * n t) ((int i + 1) * n t) = Inr (snd prepared ! i)"
      by blast
    moreover have "elems (snd res ! index t) = snd trained" unfolding slot by simp
    moreover have "centers (fst res) = fst trained" unfolding res by simp
    ultimately show ?thesis using subs [OF that] by simp
  qed
  have others: "\<forall>i. i \<noteq> index t \<longrightarrow> snd res ! i = luts ! i"
    unfolding res by simp
  have shape: "rows (snd res ! index t) = ?r" "cols (snd res ! index t) = 65536"
    "length (elems (snd res ! index t)) = ?r * 65536"
    unfolding slot using len by (simp_all add: Mat_new_def)
  have cs: "fst res = t\<lparr>centers := centers (fst res)\<rparr>"
    "length (centers (fst res)) = length (centers t) + ?r"
    "\<forall>i\<ge>?r. centers (fst res) ! i = (centers t @ replicate ?r Mat_empty) ! i"
    unfolding res using lcs later by simp_all
  have ll: "length (snd res) = length luts" unfolding res by simp
  from nz dvd nn ix cs ll others shape each show ?thesis by blast
qed

lemma colRange_rows: "colRange m a b = Inr s \<Longrightarrow> rows s = rows m"
proof -
  assume h: "colRange m a b = Inr s"
  then have ok: "0 \<le> a \<and> a \<le> b \<and> b \<le> int (cols m)"
    by (simp add: colRange_def split: if_splits)
  then have "map_sum id rows (colRange m a b) = Inr (rows m)"
    by (simp add: colRange_def)
  with h show ?thesis by simp
qed

lemma table_loop_total:
  assumes step: "\<And>j k b. j < 256 \<Longrightarrow> k < 256 \<Longrightarrow> length b = L \<Longrightarrow>
                   \<exists>b'. body j k b = Inr b' \<and> length b' = L"
    and len: "length buf = L"
  shows "\<exists>buf'. forM [0..<256] (\<lambda>j. forM [0..<256] (body j)) buf = Inr buf' \<and> length buf' = L"
proof (rule forM_upt_total [where P = "\<lambda>_ b. length b = L"])
  fix j :: nat and b :: "'a list"
  assume j: "j < 256" and b: "length b = L"
  show "\<exists>b'. forM [0..<256] (body j) b = Inr b' \<and> length b' = L"
    by (rule forM_upt_total [where P = "\<lambda>_ b. length b = L"]) (use step j b in auto)
qed (use len in simp_all)

lemma fill_table_total:
  assumes "256 \<le> rows center" and "\<forall>a b. \<exists>d. distance t a b = Inr d"
    and "off + 65536 \<le> length buf"
  shows "\<exists>buf1. fill_table t center off buf = Inr buf1"
proof -
  have "\<exists>buf'. forM [0..<256] (\<lambda>j. forM [0..<256] (fill_cell t center off j)) buf = Inr buf' \<and>
          length buf' = length buf"
  proof (rule table_loop_total [OF _ refl])
    fix j k :: nat and b :: "real list"
    assume jk: "j < 256" "k < 256" and b: "length b = length buf"
    from jk assms(1) obtain cj ck where r: "row center j = Inr cj" "row center k = Inr ck"
      by (auto simp: row_def)
    from assms(2) obtain d where d: "distance t cj ck = Inr d" by blast
    from jk have "j * 256 + k < 65536" by simp
    with assms(3) b have "lut_write b off (int j * 256 + int k) d = Inr (b[off + (j * 256 + k) := d])"
      unfolding lut_write_Inr_iff by simp
    with r d show "\<exists>b'. fill_cell t center off j k b = Inr b' \<and> length b' = length buf"
      using b by (simp add: fill_cell_def bindR_Inr)
  qed
  then show ?thesis unfolding fill_table_def by blast
qed

lemma calibrate_table_total:
  assumes "\<forall>xs x h. \<exists>y. KernelDensityEstimation e xs x h = Inr y"
    and "off + 65536 \<le> length buf"
  shows "\<exists>buf2. calibrate_table e gs hg ms hm off buf = Inr buf2"
proof -
  have "\<exists>buf'. forM [0..<256] (\<lambda>j. forM [0..<256] (calibrate_cell e gs hg ms hm off j)) buf = Inr buf' \<and>
          length buf' = length buf"
  proof (rule table_loop_total [OF _ refl])
    fix j k :: nat and b :: "real list"
    assume jk: "j < 256" "k < 256" and b: "length b = length buf"
    from jk have lt: "j * 256 + k < 65536" by simp
    with assms(2) b have rd: "lut_read b off (int j * 256 + int k) = Inr (b ! (off + (j * 256 + k)))"
      unfolding lut_read_cell by simp
    from assms(1) obtain g where g: "KernelDensityEstimation e gs (b ! (off + (j * 256 + k))) hg = Inr g"
      by blast
    from assms(1) obtain i where i: "KernelDensityEstimation e ms (b ! (off + (j * 256 + k))) hm = Inr i"
      by blast
    from lt assms(2) b have "lut_write b off (int j * 256 + int k) (ln (g / i))
        = Inr (b[off + (j * 256 + k) := ln (g / i)])"
      unfolding lut_write_Inr_iff by simp
    with rd g i show "\<exists>b'. calibrate_cell e gs hg ms hm off j k b = Inr b' \<and> length b' = length buf"
      using b by (simp add: calibrate_cell_def bindR_Inr)
  qed
  then show ?thesis unfolding calibrate_table_def by blast
qed

lemma score_pair_total:
  assumes "i < length indicies" and "j < length indicies" and "length indicies \<le> length labels"
    and "list_all (\<lambda>c. 0 \<le> c \<and> c < 256) indicies" and "off + 65536 \<le> length buf"
  shows "\<exists>s'. score_pair buf off indicies labels i j s = Inr s'"
proof -
  from assms(1,2,4) have ci: "0 \<le> indicies ! i" "indicies ! i < 256"
    and cj: "0 \<le> indicies ! j" "indicies ! j < 256"
    by (simp_all add: list_all_length)
  then have c: "0 \<le> indicies ! i * 256 + indicies ! j" "indicies ! i * 256 + indicies ! j < 65536"
    by simp_all
  then have "nat (indicies ! i * 256 + indicies ! j) < 65536" by simp
  with assms(5) c have rd: "lut_read buf off (indicies ! i * 256 + indicies ! j)
      = Inr (buf ! (off + nat (indicies ! i * 256 + indicies ! j)))"
    unfolding lut_read_Inr_iff by simp
  from assms(1,2,3) show ?thesis
    by (simp add: score_pair_def qat_def bindR_Inr rd)
qed

lemma collect_scores_total:
  assumes "length indicies \<le> length labels"
    and "list_all (\<lambda>c. 0 \<le> c \<and> c < 256) indicies" and "off + 65536 \<le> length buf"
  shows "\<exists>s. collect_scores buf off indicies labels = Inr s"
proof -
  let ?N = "length indicies"
  have "\<exists>s. forM [0..<?N] (\<lambda>i. forM [i + 1..<?N] (score_pair buf off indicies labels i)) ([], []) = Inr s
          \<and> True"
  proof (rule forM_upt_total [where P = "\<lambda>_ _. True"])
    fix i a
    assume i: "i < ?N"
    have "\<exists>b. forM [i + 1..<?N] (score_pair buf off indicies labels i) a = Inr b \<and> True"
    proof (rule forM_upt_total [where P = "\<lambda>_ _. True"])
      fix j u
      assume "j < ?N"
      from score_pair_total [OF i this assms, of u]
      show "\<exists>b. score_pair buf off indicies labels i j u = Inr b \<and> True" by simp
    qed (use i in simp_all)
    then show "\<exists>b. forM [i + 1..<?N] (score_pair buf off indicies labels i) a = Inr b \<and> True" .
  qed simp_all
  then show ?thesis unfolding collect_scores_def by blast
qed

lemma train_subspace_total:
  assumes "returning e t data labels" and "off + 65536 \<le> length buf" and "rows sub = rows data"
  shows "\<exists>r. train_subspace e t sub labels buf off = Inr r"
proof -
  from assms(1,3) obtain indicies center where
    km: "kmeans e sub 256 = Inr (indicies, center)" and rows: "256 \<le> rows center"
    and li: "length indicies \<le> length labels"
    and range: "list_all (\<lambda>c. 0 \<le> c \<and> c < 256) indicies"
    unfolding returning_def by blast
  from assms(1) have dist: "\<forall>a b. \<exists>d. distance t a b = Inr d"
    and ds: "\<forall>xs k. \<exists>ys. Downsample e xs k = Inr ys"
    and bw: "\<forall>xs. \<exists>h. KernelDensityBandwidth e xs = Inr h"
    and kde: "\<forall>xs x h. \<exists>y. KernelDensityEstimation e xs x h = Inr y"
    unfolding returning_def by blast+
  from fill_table_total [OF rows dist assms(2)] obtain buf1 where
    fill: "fill_table t center off buf = Inr buf1" by blast
  from fill_table_result [OF fill] assms(2) have l1: "off + 65536 \<le> length buf1" by simp
  show ?thesis
  proof (cases "bayesian t")
    case False
    with km fill show ?thesis by (simp add: train_subspace_def bindR_Inr)
  next
    case True
    from collect_scores_total [OF li range l1] obtain s where
      cs: "collect_scores buf1 off indicies labels = Inr s" by blast
    from ds obtain gs where gs: "Downsample e (fst s) 256 = Inr gs" by blast
    from ds obtain ms where ms: "Downsample e (snd s) 256 = Inr ms" by blast
    from bw obtain hg where hg: "KernelDensityBandwidth e gs = Inr hg" by blast
    from bw obtain hm where hm: "KernelDensityBandwidth e ms = Inr hm" by blast
    from calibrate_table_total [OF kde l1] obtain buf2 where
      cal: "calibrate_table e gs hg ms hm off buf1 = Inr buf2" by blast
    from True km fill cs gs ms hg hm cal show ?thesis
      by (simp add: train_subspace_def bindR_Inr)
  qed
qed

lemma train_total:
  assumes n: "0 < n t" and dvd: "n t dvd int (cols data)" and ix: "index t < length luts"
    and ret: "returning e t data labels"
  shows "\<exists>res. train e t luts data labels = Inr res"
proof -
  let ?r = "subspaces t data"
  let ?w = "nat (n t)"
  let ?lut = "Mat_new ?r 65536 (uninitialised e)"
  have r: "?r = cols data div ?w" unfolding subspaces_def using n by (simp add: sdiv_nat_pos)
  have rl: "rows ?lut = ?r" and el: "length (elems ?lut) = ?r * 65536"
    by (simp_all add: Mat_new_def)
  have "\<exists>p. forM [0..<?r] (train_prepare t data) (centers t, []) = Inr p \<and> True"
  proof (rule forM_upt_total [where P = "\<lambda>_ _. True"])
    fix i a
    assume "i < ?r"
    then have "Suc i * ?w \<le> cols data" unfolding r by (rule div_bound)
    then have "(int i + 1) * n t \<le> int (cols data)"
      using n by (metis of_nat_Suc of_nat_le_iff of_nat_mult add.commute int_nat_eq less_imp_le)
    moreover have "int i * n t \<le> (int i + 1) * n t" using n by (simp add: algebra_simps)
    moreover have "0 \<le> int i * n t" using n by simp
    ultimately show "\<exists>b. train_prepare t data i a = Inr b \<and> True"
      by (simp add: train_prepare_def colRange_def bindR_Inr)
  qed simp_all
  then obtain p where prep: "forM [0..<?r] (train_prepare t data) (centers t, []) = Inr p" by blast
  note pr = train_prepare_result [OF prep]
  from pr have fp: "length (fst p) = length (centers t) + ?r" and sp: "length (snd p) = ?r" by simp_all
  have "\<exists>s. forM [0..<?r] (train_run e t labels (snd p)) (fst p, elems ?lut) = Inr s \<and>
          (length (fst s) = length (fst p) \<and> length (snd s) = ?r * 65536)"
  proof (rule forM_upt_total [where P = "\<lambda>_ s. length (fst s) = length (fst p) \<and> length (snd s) = ?r * 65536"])
    fix i and a :: "real mat list \<times> real list"
    assume i: "i < ?r" and a: "length (fst a) = length (fst p) \<and> length (snd a) = ?r * 65536"
    from i have "Suc i * 65536 \<le> ?r * 65536" by (intro mult_le_mono1) simp
    with a have fits: "i * 65536 + 65536 \<le> length (snd a)" by simp
    from pr i have "colRange data (int i * n t) ((int i + 1) * n t) = Inr (snd p ! i)" by blast
    then have "rows (snd p ! i) = rows data"
      by (rule colRange_rows)
    from train_subspace_total [OF ret fits this] obtain rr where
      rr: "train_subspace e t (snd p ! i) labels (snd a) (i * 65536) = Inr rr" by blast
    from train_subspace_result [OF rr] have "length (fst rr) = length (snd a)" by simp
    with rr i a sp fp
    show "\<exists>b. train_run e t labels (snd p) i a = Inr b \<and>
            (length (fst b) = length (fst p) \<and> length (snd b) = ?r * 65536)"
      by (simp add: train_run_def qat_def bindR_Inr)
  qed (simp_all add: Mat_new_def)
  then obtain s where run: "forM [0..<?r] (train_run e t labels (snd p)) (fst p, elems ?lut) = Inr s"
    by blast
  have nn: "\<not> int (cols data) sdiv n t < 0" using n by (simp add: sdiv_nat_pos)
  have sm: "int (cols data) smod n t = 0" using dvd by (simp only: smod_eq_0_iff_dvd)
  show ?thesis
    unfolding train_def Let_def subspaces_def [symmetric]
    using n ix nn sm by (simp add: rl prep run bindR_Inr del: upt_rec_numeral)
qed

lemma row_ex_codebook:
  "j < 256 \<Longrightarrow> row ex_codebook j = Inr \<lparr>rows = 1, cols = 2, elems = ex_center j\<rparr>"
  unfolding row_Inr_iff by (simp add: center_of_ex) (simp add: ex_codebook_def)

lemma returning_ex_env:
  assumes "rows data = 256" and "256 \<le> length labels" and "distance t = dist_L1"
  shows "returning ex_env t data labels"
proof -
  have range: "list_all (\<lambda>c. 0 \<le> c \<and> c < 256) (map int [0..<256])"
    by (simp add: list_all_length del: upt_rec_numeral)
  have km: "\<exists>indicies center. kmeans ex_env sub 256 = Inr (indicies, center) \<and> 256 \<le> rows center \<and>
            length indicies \<le> length labels \<and> list_all (\<lambda>c. 0 \<le> c \<and> c < 256) indicies"
    if "rows sub = rows data" for sub
  proof -
    from that assms(1) have "kmeans ex_env sub 256 = Inr (map int [0..<256], sub)"
      by (simp add: ex_env_def ex_kmeans_def del: upt_rec_numeral)
    moreover have "256 \<le> rows sub" using that assms(1) by simp
    moreover have "length (map int [0..<256]) \<le> length labels"
      using assms(2) by (simp del: upt_rec_numeral)
    ultimately show ?thesis using range by blast
  qed
  have rest: "(\<forall>a b. \<exists>d. distance t a b = Inr d) \<and>
      (\<forall>xs k. \<exists>ys. Downsample ex_env xs k = Inr ys) \<and>
      (\<forall>xs. \<exists>h. KernelDensityBandwidth ex_env xs = Inr h) \<and>
      (\<forall>xs x h. \<exists>y. KernelDensityEstimation ex_env xs x h = Inr y)"
    by (simp add: assms(3) ex_env_def ex_Downsample_def ex_Bandwidth_def ex_Estimation_def
        dist_L1_def)
  from km rest show ?thesis unfolding returning_def by blast
qed

lemma colRange_ex_samples:
  assumes "colRange ex_samples (int 0 * 2) ((int 0 + 1) * 2) = Inr sub"
  shows "sub = ex_codebook"
proof -
  have "map (\<lambda>r. take 2 (drop (r * 2) ex_elems)) [0..<256] = map ex_center [0..<256]"
  proof (rule map_cong [OF refl])
    fix r assume "r \<in> set [0..<256]"
    then have "r < 256" by (simp del: upt_rec_numeral)
    from center_of_ex [OF this] show "take 2 (drop (r * 2) ex_elems) = ex_center r"
      by (simp add: center_of_def ex_codebook_def)
  qed
  then have "concat (map (\<lambda>r. take 2 (drop (r * 2) ex_elems)) [0..<256]) = ex_elems"
    by (simp only: ex_elems_def)
  then have "colRange ex_samples (int 0 * 2) ((int 0 + 1) * 2) = Inr ex_codebook"
    by (simp add: colRange_def ex_samples_def ex_codebook_def del: upt_rec_numeral)
  with assms show ?thesis by simp
qed

lemma ex_training:
  assumes "distance t = dist_L1" and "n t = 2" and "index t < length luts"
    and "256 \<le> length labels"
  shows "\<exists>res. train ex_env t luts ex_samples labels = Inr res"
    and "0 < subspaces t ex_samples"
proof -
  have ret: "returning ex_env t ex_samples labels"
    by (rule returning_ex_env) (simp_all add: ex_samples_def ex_codebook_def assms)
  show "\<exists>res. train ex_env t luts ex_samples labels = Inr res"
    by (rule train_total [OF _ _ _ ret]) (simp_all add: assms ex_samples_def ex_codebook_def)
  show "0 < subspaces t ex_samples"
    by (simp add: subspaces_def assms ex_samples_def ex_codebook_def signed_divide_int_def)
qed

lemma table_entry_cell:
  "table_entry lut i j k = elems lut ! (i * 65536 + (j * 256 + k))"
proof -
  have "i * 256 * 256 + j * 256 + k = i * 65536 + (j * 256 + k)" by simp
  then show ?thesis unfolding table_entry_def by (simp only:)
qed

text \<open>
  Claim C1.  After \<^verbatim>\<open>train\<close> has returned without calibration, for every subspace \<open>i\<close> and
  all \<open>j, k < 256\<close>, the entry \<open>(j, k)\<close> of the table of subspace \<open>i\<close> in the transform's
  registry slot is the configured distance applied to rows \<open>j\<close> and \<open>k\<close> of the center
  matrix \<^verbatim>\<open>centers[i]\<close>, which is the matrix \<^verbatim>\<open>kmeans\<close> returned for the column range of the
  subspace when asked for 256 clusters: it has at least 256 rows, and exactly 256 when
  \<^verbatim>\<open>kmeans\<close> returns as many centers as it is asked for.
\<close>

theorem raw_table_entries:
  assumes "train e t luts data labels = Inr (t', luts')" and "\<not> bayesian t"
    and "i < subspaces t data" and "j < 256" and "k < 256"
  shows "center_distance t (centers t' ! i) j k (table_entry (luts' ! index t) i j k) \<and>
         (\<exists>sub indicies. colRange data (int i * n t) ((int i + 1) * n t) = Inr sub \<and>
            kmeans e sub 256 = Inr (indicies, centers t' ! i)) \<and>
         256 \<le> rows (centers t' ! i) \<and>
         ((\<forall>sub K indicies cs. kmeans e sub K = Inr (indicies, cs) \<longrightarrow> rows cs = K) \<longrightarrow>
            rows (centers t' ! i) = 256)"
proof -
  from train_result [OF assms(1)] assms(3) obtain sub where
    sub: "colRange data (int i * n t) ((int i + 1) * n t) = Inr sub"
    and res: "subspace_result e t sub labels (centers t' ! i)
                (\<lambda>c. elems (luts' ! index t) ! (i * 65536 + c))"
    by auto
  from res assms(2) obtain indicies where km: "kmeans e sub 256 = Inr (indicies, centers t' ! i)"
    and raw: "raw_table t (centers t' ! i) (\<lambda>c. elems (luts' ! index t) ! (i * 65536 + c))"
    unfolding subspace_result_def by auto
  from raw have all: "\<And>j k. j < 256 \<Longrightarrow> k < 256 \<Longrightarrow>
      center_distance t (centers t' ! i) j k (table_entry (luts' ! index t) i j k)"
    unfolding raw_table_def table_entry_cell by blast
  from center_distance_rows [OF all [of 255 255]] have rows: "256 \<le> rows (centers t' ! i)"
    by simp
  from km have "rows (centers t' ! i) = 256"
    if "\<forall>sub K indicies cs. kmeans e sub K = Inr (indicies, cs) \<longrightarrow> rows cs = K"
    using that by blast
  with all [OF assms(4,5)] sub km rows show ?thesis by blast
qed

lemma ex_kmeans_result:
  assumes "colRange ex_samples (int 0 * n t) ((int 0 + 1) * n t) = Inr sub" and "n t = 2"
    and "kmeans ex_env sub 256 = Inr (indicies, center)"
  shows "indicies = map int [0..<256] \<and> center = ex_codebook"
proof -
  from assms(1) have sub: "sub = ex_codebook"
    unfolding assms(2) by (rule colRange_ex_samples)
  have "rows ex_codebook = 256" by (simp add: ex_codebook_def)
  with assms(3) show ?thesis
    unfolding sub by (simp add: ex_env_def ex_kmeans_def del: upt_rec_numeral)
qed

theorem raw_table_entries_witness:
  "\<exists>t' luts'. train ex_env pq_plain [Mat_empty] ex_samples one_class = Inr (t', luts') \<and>
     \<not> bayesian pq_plain \<and> 0 < subspaces pq_plain ex_samples \<and>
     centers t' ! 0 = ex_codebook \<and> rows (centers t' ! 0) = 256 \<and>
     table_entry (luts' ! index pq_plain) 0 0 1 = 7"
proof -
  have p: "distance pq_plain = dist_L1" "n pq_plain = 2" "index pq_plain < length [Mat_empty :: real mat]"
    "256 \<le> length one_class"
    by (simp_all add: pq_plain_def one_class_def)
  from ex_training(1) [OF p] obtain t' luts' where
    tr: "train ex_env pq_plain [Mat_empty] ex_samples one_class = Inr (t', luts')"
    by auto
  have nb: "\<not> bayesian pq_plain" by (simp add: pq_plain_def)
  have sub: "0 < subspaces pq_plain ex_samples" by (rule ex_training(2) [OF p])
  from raw_table_entries [OF tr nb sub, of 0 1]
  have cd: "center_distance pq_plain (centers t' ! 0) 0 1 (table_entry (luts' ! index pq_plain) 0 0 1)"
    and km: "\<exists>sub indicies. colRange ex_samples (int 0 * n pq_plain) ((int 0 + 1) * n pq_plain) = Inr sub \<and>
        kmeans ex_env sub 256 = Inr (indicies, centers t' ! 0)"
    by auto
  from km ex_kmeans_result [OF _ p(2)] have c: "centers t' ! 0 = ex_codebook"
    by blast
  have r0: "row ex_codebook 0 = Inr \<lparr>rows = 1, cols = 2, elems = [3, 4]\<rparr>"
    using row_ex_codebook [of 0] by (simp add: ex_center_def)
  have r1: "row ex_codebook 1 = Inr \<lparr>rows = 1, cols = 2, elems = [6, 0]\<rparr>"
    using row_ex_codebook [of 1] by (simp add: ex_center_def)
  from cd have "table_entry (luts' ! index pq_plain) 0 0 1 = 7"
    unfolding c center_distance_def r0 r1 bindR_Inr
    by (simp add: pq_plain_def dist_L1_def)
  moreover have "rows (centers t' ! 0) = 256" unfolding c by (simp add: ex_codebook_def)
  ultimately show ?thesis using tr nb sub c by blast
qed

lemma calibrated_subspaceE:
  assumes "train e t luts data labels = Inr (t', luts')" and "bayesian t"
    and "i < subspaces t data"
  obtains sub indicies raw genuineScores impostorScores hGenuine hImpostor where
    "colRange data (int i * n t) ((int i + 1) * n t) = Inr sub"
    and "kmeans e sub 256 = Inr (indicies, centers t' ! i)"
    and "\<forall>j<256. \<forall>k<256. center_distance t (centers t' ! i) j k (raw (j * 256 + k))"
    and "Downsample e (genuine_population raw indicies labels) 256 = Inr genuineScores"
    and "Downsample e (impostor_population raw indicies labels) 256 = Inr impostorScores"
    and "KernelDensityBandwidth e genuineScores = Inr hGenuine"
    and "KernelDensityBandwidth e impostorScores = Inr hImpostor"
    and "\<forall>j<256. \<forall>k<256. \<exists>g d.
        KernelDensityEstimation e genuineScores (raw (j * 256 + k)) hGenuine = Inr g \<and>
        KernelDensityEstimation e impostorScores (raw (j * 256 + k)) hImpostor = Inr d \<and>
        table_entry (luts' ! index t) i j k = ln (g / d)"
proof -
  from train_result [OF assms(1)] assms(3) obtain sub where
    sub: "colRange data (int i * n t) ((int i + 1) * n t) = Inr sub"
    and res: "subspace_result e t sub labels (centers t' ! i)
                (\<lambda>c. elems (luts' ! index t) ! (i * 65536 + c))"
    by auto
  from res assms(2) obtain indicies where km: "kmeans e sub 256 = Inr (indicies, centers t' ! i)"
    and cal: "calibrated_table e t labels indicies (centers t' ! i)
                (\<lambda>c. elems (luts' ! index t) ! (i * 65536 + c))"
    unfolding subspace_result_def by auto
  from cal obtain raw gs ms hg hm where
    raw: "\<forall>j<256. \<forall>k<256. center_distance t (centers t' ! i) j k (raw (j * 256 + k))"
    and dg: "Downsample e (genuine_population raw indicies labels) 256 = Inr gs"
    and dm: "Downsample e (impostor_population raw indicies labels) 256 = Inr ms"
    and bg: "KernelDensityBandwidth e gs = Inr hg"
    and bm: "KernelDensityBandwidth e ms = Inr hm"
    and cells: "\<forall>j<256. \<forall>k<256. calibrated e gs hg ms hm (raw (j * 256 + k))
                  (table_entry (luts' ! index t) i j k)"
    unfolding calibrated_table_def raw_table_def table_entry_cell by blast
  have entries: "\<forall>j<256. \<forall>k<256. \<exists>g d.
        KernelDensityEstimation e gs (raw (j * 256 + k)) hg = Inr g \<and>
        KernelDensityEstimation e ms (raw (j * 256 + k)) hm = Inr d \<and>
        table_entry (luts' ! index t) i j k = ln (g / d)"
    using cells unfolding calibrated_def by blast
  show thesis
    by (rule that [OF sub km raw dg dm bg bm entries])
qed

text \<open>
  Claim C5.  After \<^verbatim>\<open>train\<close> has returned with calibration enabled, for every subspace
  \<open>i\<close> there is the table \<open>raw\<close> of the distances between the centers of the subspace such
  that: the genuine and the impostor scores of the pairs of samples, read from \<open>raw\<close> at
  the cluster labels of the pair, were each passed to \<^verbatim>\<open>Downsample\<close> with the cap 256 (so
  each has at most 256 entries when \<^verbatim>\<open>Downsample\<close> respects its cap); one bandwidth was
  estimated for each downsampled population; and every entry \<open>(j, k)\<close> of the subspace's
  table is the logarithm of the genuine density estimate at \<open>raw[j][k]\<close> with the genuine
  bandwidth divided by the impostor density estimate at \<open>raw[j][k]\<close> with the impostor
  bandwidth.
\<close>

theorem calibrated_table_entries:
  assumes "train e t luts data labels = Inr (t', luts')" and "bayesian t"
    and "i < subspaces t data"
  shows "\<exists>sub indicies raw genuineScores impostorScores hGenuine hImpostor.
     colRange data (int i * n t) ((int i + 1) * n t) = Inr sub \<and>
     kmeans e sub 256 = Inr (indicies, centers t' ! i) \<and>
     (\<forall>j<256. \<forall>k<256. center_distance t (centers t' ! i) j k (raw (j * 256 + k))) \<and>
     Downsample e (genuine_population raw indicies labels) 256 = Inr genuineScores \<and>
     Downsample e (impostor_population raw indicies labels) 256 = Inr impostorScores \<and>
     ((\<forall>xs cap ys. Downsample e xs cap = Inr ys \<longrightarrow> length ys \<le> cap) \<longrightarrow>
        length genuineScores \<le> 256 \<and> length impostorScores \<le> 256) \<and>
     KernelDensityBandwidth e genuineScores = Inr hGenuine \<and>
     KernelDensityBandwidth e impostorScores = Inr hImpostor \<and>
     (\<forall>j<256. \<forall>k<256. \<exists>g d.
        KernelDensityEstimation e genuineScores (raw (j * 256 + k)) hGenuine = Inr g \<and>
        KernelDensityEstimation e impostorScores (raw (j * 256 + k)) hImpostor = Inr d \<and>
        table_entry (luts' ! index t) i j k = ln (g / d))"
proof -
  obtain sub indicies raw gs ms hg hm where
    sub: "colRange data (int i * n t) ((int i + 1) * n t) = Inr sub"
    and km: "kmeans e sub 256 = Inr (indicies, centers t' ! i)"
    and raw: "\<forall>j<256. \<forall>k<256. center_distance t (centers t' ! i) j k (raw (j * 256 + k))"
    and dg: "Downsample e (genuine_population raw indicies labels) 256 = Inr gs"
    and dm: "Downsample e (impostor_population raw indicies labels) 256 = Inr ms"
    and bg: "KernelDensityBandwidth e gs = Inr hg"
    and bm: "KernelDensityBandwidth e ms = Inr hm"
    and entries: "\<forall>j<256. \<forall>k<256. \<exists>g d.
        KernelDensityEstimation e gs (raw (j * 256 + k)) hg = Inr g \<and>
        KernelDensityEstimation e ms (raw (j * 256 + k)) hm = Inr d \<and>
        table_entry (luts' ! index t) i j k = ln (g / d)"
    by (rule calibrated_subspaceE [OF assms])
  have cap: "(\<forall>xs cap ys. Downsample e xs cap = Inr ys \<longrightarrow> length ys \<le> cap) \<longrightarrow>
        length gs \<le> 256 \<and> length ms \<le> 256"
    using dg dm by blast
  show ?thesis
    apply (rule exI [of _ sub])
    apply (rule exI [of _ indicies])
    apply (rule exI [of _ raw])
    apply (rule exI [of _ gs])
    apply (rule exI [of _ ms])
    apply (rule exI [of _ hg])
    apply (rule exI [of _ hm])
    apply (intro conjI sub km raw dg dm cap bg bm entries)
    done
qed

lemma center_distance_ex:
  assumes "center_distance t ex_codebook j k v" and "distance t = dist_L1" and "j < 256" and "k < 256"
  shows "v = (\<Sum>p\<leftarrow>zip (ex_center j) (ex_center k). \<bar>fst p - snd p\<bar>)"
  using assms(1)
  unfolding center_distance_def row_ex_codebook [OF assms(3)] row_ex_codebook [OF assms(4)]
    bindR_Inr assms(2)
  by (simp add: dist_L1_def)

theorem calibrated_table_entries_witness:
  "\<exists>t' luts' genuineScores impostorScores g d.
     train ex_env pq_bayes [Mat_empty] ex_samples two_classes = Inr (t', luts') \<and>
     bayesian pq_bayes \<and> 0 < subspaces pq_bayes ex_samples \<and>
     centers t' ! 0 = ex_codebook \<and>
     length genuineScores \<le> 256 \<and> length impostorScores \<le> 256 \<and>
     KernelDensityEstimation ex_env genuineScores 7 1 = Inr g \<and>
     KernelDensityEstimation ex_env impostorScores 7 1 = Inr d \<and>
     table_entry (luts' ! index pq_bayes) 0 0 1 = ln (g / d)"
proof -
  have p: "distance pq_bayes = dist_L1" "n pq_bayes = 2" "index pq_bayes < length [Mat_empty :: real mat]"
    "256 \<le> length two_classes"
    by (simp_all add: pq_bayes_def two_classes_def del: upt_rec_numeral)
  from ex_training(1) [OF p] obtain t' luts' where
    tr: "train ex_env pq_bayes [Mat_empty] ex_samples two_classes = Inr (t', luts')"
    by auto
  have b: "bayesian pq_bayes" by (simp add: pq_bayes_def)
  have sub: "0 < subspaces pq_bayes ex_samples" by (rule ex_training(2) [OF p])
  from calibrated_table_entries [OF tr b sub]
  obtain sub indicies raw gs ms hg hm where
    cr: "colRange ex_samples (int 0 * n pq_bayes) ((int 0 + 1) * n pq_bayes) = Inr sub"
    and km: "kmeans ex_env sub 256 = Inr (indicies, centers t' ! 0)"
    and raw: "\<forall>j<256. \<forall>k<256. center_distance pq_bayes (centers t' ! 0) j k (raw (j * 256 + k))"
    and cap: "(\<forall>xs cap ys. Downsample ex_env xs cap = Inr ys \<longrightarrow> length ys \<le> cap) \<longrightarrow>
        length gs \<le> 256 \<and> length ms \<le> 256"
    and cells: "\<forall>j<256. \<forall>k<256. \<exists>g d.
        KernelDensityEstimation ex_env gs (raw (j * 256 + k)) hg = Inr g \<and>
        KernelDensityEstimation ex_env ms (raw (j * 256 + k)) hm = Inr d \<and>
        table_entry (luts' ! index pq_bayes) 0 j k = ln (g / d)"
    and bg: "KernelDensityBandwidth ex_env gs = Inr hg"
    and bm: "KernelDensityBandwidth ex_env ms = Inr hm"
    by blast
  from ex_kmeans_result [OF cr p(2) km] have c: "centers t' ! 0 = ex_codebook" by simp
  from raw have raw': "\<And>j k. j < 256 \<Longrightarrow> k < 256 \<Longrightarrow>
      center_distance pq_bayes ex_codebook j k (raw (j * 256 + k))"
    unfolding c by blast
  have lt: "(0::nat) < 256" "(1::nat) < 256" by simp_all
  from center_distance_ex [OF raw' [OF lt] p(1) lt] have raw1: "raw (0 * 256 + 1) = 7"
    by (simp add: ex_center_def)
  have "\<forall>xs cap ys. Downsample ex_env xs cap = Inr ys \<longrightarrow> length ys \<le> cap"
    by (auto simp: ex_env_def ex_Downsample_def)
  with cap have len: "length gs \<le> 256" "length ms \<le> 256" by blast+
  from bg bm have h: "hg = 1" "hm = 1"
    by (auto simp: ex_env_def ex_Bandwidth_def)
  from cells have cells': "\<And>j k. j < 256 \<Longrightarrow> k < 256 \<Longrightarrow> \<exists>g d.
        KernelDensityEstimation ex_env gs (raw (j * 256 + k)) hg = Inr g \<and>
        KernelDensityEstimation ex_env ms (raw (j * 256 + k)) hm = Inr d \<and>
        table_entry (luts' ! index pq_bayes) 0 j k = ln (g / d)"
    by blast
  from cells' [OF lt] obtain g d where
    "KernelDensityEstimation ex_env gs (raw (0 * 256 + 1)) hg = Inr g"
    "KernelDensityEstimation ex_env ms (raw (0 * 256 + 1)) hm = Inr d"
    "table_entry (luts' ! index pq_bayes) 0 0 1 = ln (g / d)"
    by blast
  then have "KernelDensityEstimation ex_env gs 7 1 = Inr g"
    "KernelDensityEstimation ex_env ms 7 1 = Inr d"
    "table_entry (luts' ! index pq_bayes) 0 0 1 = ln (g / d)"
    unfolding raw1 h by - assumption+
  with tr b sub c len show ?thesis by blast
qed

section \<open>Calibration with an empty population\<close>





section \<open>The registry slot of a transform\<close>

lemma train_other_slots:
  assumes "train e t luts data labels = Inr (t1, luts1)"
  shows "index t1 = index t \<and> length luts1 = length luts \<and>
         (\<forall>i. i \<noteq> index t \<longrightarrow> luts1 ! i = luts ! i)"
proof -
  from train_result [OF assms] have "fst (t1, luts1) = t\<lparr>centers := centers (fst (t1, luts1))\<rparr>"
    and "length (snd (t1, luts1)) = length luts"
    and "\<forall>i. i \<noteq> index t \<longrightarrow> snd (t1, luts1) ! i = luts ! i"
    by blast+
  then have "t1 = t\<lparr>centers := centers t1\<rparr>" and l: "length luts1 = length luts"
    and o: "\<forall>i. i \<noteq> index t \<longrightarrow> luts1 ! i = luts ! i"
    by simp_all
  from this(1) have "index t1 = index (t\<lparr>centers := centers t1\<rparr>)" by simp
  then have "index t1 = index t" by simp
  with l o show ?thesis by blast
qed

lemma train_reads_no_slot:
  assumes "index t < length luts" and "index t < length other"
  shows "map_sum id (\<lambda>r. (fst r, snd r ! index t)) (train e t luts data labels) =
         map_sum id (\<lambda>r. (fst r, snd r ! index t)) (train e t other data labels)"
  using assms unfolding train_def Let_def bindR_def
  by (simp split: sum.splits)

lemma load_other_slots:
  assumes "load c t luts s = Inr (t2, luts2, rest)"
  shows "index t2 = index t \<and> length luts2 = length luts \<and>
         (\<forall>i. i \<noteq> index t \<longrightarrow> luts2 ! i = luts ! i)"
  using assms unfolding load_def bindR_Inr_iff by auto

lemma load_reads_no_slot:
  assumes "index t < length luts" and "index t < length other"
  shows "map_sum id (\<lambda>r. (fst r, fst (snd r) ! index t, snd (snd r))) (load c t luts s) =
         map_sum id (\<lambda>r. (fst r, fst (snd r) ! index t, snd (snd r))) (load c t other s)"
  using assms unfolding load_def bindR_def qat_def
  by (simp split: sum.splits)

text \<open>
  Claim C10.  The constructor appends exactly one empty matrix to the registry and takes
  the size of the registry before the append as the identity of the transform; transforms
  constructed one after the other get the consecutive, hence pairwise distinct, identities
  \<open>length luts, length luts + 1, ...\<close>.  \<^verbatim>\<open>train\<close> and \<^verbatim>\<open>load\<close> keep the identity, the size of
  the registry and every slot but the transform's own, and what they produce (the
  transform, the contents of its slot, the rest of the stream) does not depend on the
  contents of any slot; \<^verbatim>\<open>store\<close> writes the same stream for any two registries that agree
  on the transform's own slot.
\<close>

theorem registry_slot_discipline:
  "index (fst (construct n0 distance0 bayesian0 luts)) = length luts \<and>
   snd (construct n0 distance0 bayesian0 luts) = luts @ [Mat_empty] \<and>
   map index (fst (construct_all cfgs luts)) = [length luts..<length luts + length cfgs] \<and>
   distinct (map index (fst (construct_all cfgs luts))) \<and>
   snd (construct_all cfgs luts) = luts @ replicate (length cfgs) Mat_empty \<and>
   (\<forall>t1 luts1. train e t luts data labels = Inr (t1, luts1) \<longrightarrow>
      index t1 = index t \<and> length luts1 = length luts \<and>
      (\<forall>i. i \<noteq> index t \<longrightarrow> luts1 ! i = luts ! i)) \<and>
   (index t < length luts \<and> index t < length other \<longrightarrow>
      map_sum id (\<lambda>r. (fst r, snd r ! index t)) (train e t luts data labels) =
      map_sum id (\<lambda>r. (fst r, snd r ! index t)) (train e t other data labels)) \<and>
   (qat luts (index t) = qat other (index t) \<longrightarrow> store c t luts s = store c t other s) \<and>
   (\<forall>t2 luts2 rest. load c t luts s = Inr (t2, luts2, rest) \<longrightarrow>
      index t2 = index t \<and> length luts2 = length luts \<and>
      (\<forall>i. i \<noteq> index t \<longrightarrow> luts2 ! i = luts ! i)) \<and>
   (index t < length luts \<and> index t < length other \<longrightarrow>
      map_sum id (\<lambda>r. (fst r, fst (snd r) ! index t, snd (snd r))) (load c t luts s) =
      map_sum id (\<lambda>r. (fst r, fst (snd r) ! index t, snd (snd r))) (load c t other s))"
proof (intro conjI allI impI)
  show "index (fst (construct n0 distance0 bayesian0 luts)) = length luts"
    and "snd (construct n0 distance0 bayesian0 luts) = luts @ [Mat_empty]"
    by (simp_all add: construct_def)
  show "map index (fst (construct_all cfgs luts)) = [length luts..<length luts + length cfgs]"
    by (rule construct_all_index)
  show "distinct (map index (fst (construct_all cfgs luts)))"
    unfolding construct_all_index by (rule distinct_upt)
  show "snd (construct_all cfgs luts) = luts @ replicate (length cfgs) Mat_empty"
    by (rule construct_all_registry)
next
  fix t1 luts1
  assume tr: "train e t luts data labels = Inr (t1, luts1)"
  from train_other_slots [OF tr]
  show "index t1 = index t" and "length luts1 = length luts" by simp_all
  fix i assume "i \<noteq> index t"
  with train_other_slots [OF tr] show "luts1 ! i = luts ! i" by simp
next
  assume "index t < length luts \<and> index t < length other"
  then show "map_sum id (\<lambda>r. (fst r, snd r ! index t)) (train e t luts data labels) =
      map_sum id (\<lambda>r. (fst r, snd r ! index t)) (train e t other data labels)"
    by (intro train_reads_no_slot) simp_all
next
  assume "qat luts (index t) = qat other (index t)"
  then show "store c t luts s = store c t other s"
    by (simp add: store_def)
next
  fix t2 luts2 rest
  assume ld: "load c t luts s = Inr (t2, luts2, rest)"
  from load_other_slots [OF ld]
  show "index t2 = index t" and "length luts2 = length luts" by simp_all
  fix i assume "i \<noteq> index t"
  with load_other_slots [OF ld] show "luts2 ! i = luts ! i" by simp
next
  assume "index t < length luts \<and> index t < length other"
  then show "map_sum id (\<lambda>r. (fst r, fst (snd r) ! index t, snd (snd r))) (load c t luts s) =
      map_sum id (\<lambda>r. (fst r, fst (snd r) ! index t, snd (snd r))) (load c t other s)"
    by (intro load_reads_no_slot) simp_all
qed

theorem registry_slot_discipline_witness:
  "map index (fst (construct_all [(2, dist_L1, False), (4, dist_L1, True)] [w_lut])) = [1, 2] \<and>
   snd (construct_all [(2, dist_L1, False), (4, dist_L1, True)] [w_lut])
     = [w_lut, Mat_empty, Mat_empty] \<and>
   (\<exists>t1 luts1. train ex_env pq_plain [Mat_empty, w_lut] ex_samples one_class = Inr (t1, luts1) \<and>
      index t1 = 0 \<and> length luts1 = 2 \<and> luts1 ! 1 = w_lut) \<and>
   store item_codec pq_L1 [w_lut, Mat_empty] [] = store item_codec pq_L1 [w_lut] [] \<and>
   (\<exists>t2 luts2 rest.
      load item_codec pq_plain [Mat_empty, w_lut] [MatsItem [ex_codebook], MatItem w_lut]
        = Inr (t2, luts2, rest) \<and> luts2 ! 1 = w_lut \<and> length luts2 = 2)"
proof -
  note d = registry_slot_discipline
  note c2' = conjunct2 [THEN conjunct2]
  note c4' = c2' [THEN c2']
  have c1: "map index (fst (construct_all [(2, dist_L1, False), (4, dist_L1, True)] [w_lut])) = [1, 2]"
    using d [where luts = "[w_lut]" and cfgs = "[(2, dist_L1, False), (4, dist_L1, True)]",
        THEN c2', THEN conjunct1]
    by (simp add: upt_rec)
  have c2: "snd (construct_all [(2, dist_L1, False), (4, dist_L1, True)] [w_lut])
     = [w_lut, Mat_empty, Mat_empty]"
    using d [where luts = "[w_lut]" and cfgs = "[(2, dist_L1, False), (4, dist_L1, True)]",
        THEN c4', THEN conjunct1]
    by simp
  have "\<exists>res. train ex_env pq_plain [Mat_empty, w_lut] ex_samples one_class = Inr res"
    by (rule ex_training(1)) (simp_all add: pq_plain_def one_class_def)
  then obtain t1 luts1 where
    tr: "train ex_env pq_plain [Mat_empty, w_lut] ex_samples one_class = Inr (t1, luts1)" by auto
  have i0: "index pq_plain = 0" by (simp add: pq_plain_def)
  from d [where luts = "[Mat_empty, w_lut]" and t = pq_plain and e = ex_env and data = ex_samples
      and labels = one_class, THEN c4', THEN conjunct2, THEN conjunct1, rule_format, OF tr]
  have c3: "index t1 = 0 \<and> length luts1 = 2 \<and> luts1 ! 1 = w_lut"
    unfolding i0 by simp
  have c4: "store item_codec pq_L1 [w_lut, Mat_empty] [] = store item_codec pq_L1 [w_lut] []"
    by (simp add: store_def pq_L1_def qat_def)
  have ld: "load item_codec pq_plain [Mat_empty, w_lut] [MatsItem [ex_codebook], MatItem w_lut]
      = Inr (pq_plain\<lparr>centers := [ex_codebook]\<rparr>, [w_lut, w_lut], [])"
    by (simp add: load_def item_codec_def bindR_def qat_def pq_plain_def)
  from d [where luts = "[Mat_empty, w_lut]" and t = pq_plain and c = item_codec
      and s = "[MatsItem [ex_codebook], MatItem w_lut]",
      THEN c4', THEN c4', THEN conjunct1, rule_format, OF ld]
  have "length [w_lut, w_lut] = length [Mat_empty, w_lut] \<and>
      (\<forall>i. i \<noteq> index pq_plain \<longrightarrow> [w_lut, w_lut] ! i = [Mat_empty, w_lut] ! i)"
    by blast
  with ld have c5: "\<exists>t2 luts2 rest.
      load item_codec pq_plain [Mat_empty, w_lut] [MatsItem [ex_codebook], MatItem w_lut]
        = Inr (t2, luts2, rest) \<and> luts2 ! 1 = w_lut \<and> length luts2 = 2"
    by simp
  from c1 c2 tr c3 c4 c5 show ?thesis by blast
qed

end
